theory Spec2Isabelle
  imports Main "HOL-Library.Word" "HOL-Library.Monad_Syntax"
begin

section \<open>The IR data model of ir.h\<close>

text \<open>
  The header declares fifteen node classes below the abstract class \<open>IrElement\<close>. Nodes
  refer to each other through pointers (raw pointers and \<open>shared_ptr\<close>s), and blocks are
  mutated in place by \<open>Block::link\<close>, so the objects live in an explicit store and the
  fields that are pointers in the source are of type \<open>ptr\<close> here.
\<close>

subsection \<open>Pointers and enumerations\<close>

type_synonym addr = nat

datatype ptr = NULL | Addr addr

text \<open>\<open>enum VarType\<close>.\<close>

datatype VarType = VT_Bot | VT_Int | VT_Double | VT_Ptr

text \<open>\<open>enum BinOp::Type\<close>, generated from \<open>FOR_IR_BINOP\<close>.\<close>

datatype BinOp_Type =
    BO_ADD | BO_SUB | BO_MUL | BO_DIV | BO_MOD | BO_LT | BO_LE | BO_EQ | BO_NEQ
  | BO_OR | BO_AND | BO_LOR | BO_LAND | BO_XOR | BO_INVALID

text \<open>\<open>enum UnOp::Type\<close>, generated from \<open>FOR_IR_UNOP\<close>.\<close>

datatype UnOp_Type =
    UO_CAST_I2D | UO_CAST_D2I | UO_CAST_P2I | UO_CAST_I2P | UO_NEG | UO_NOT | UO_INVALID

text \<open>\<open>enum IrElement::IrType\<close>: one tag \<open>IT_##ir\<close> per entry of \<open>FOR_IR\<close>, then
  \<open>IT_INVALID\<close>.\<close>

datatype IrType =
    IT_BinOp | IT_UnOp | IT_Variable | IT_Return | IT_Phi | IT_Int | IT_Double | IT_Ptr
  | IT_Block | IT_Assignment | IT_Call | IT_Print | IT_FunctionRecord | IT_JumpAlways
  | IT_JumpCond | IT_INVALID

subsection \<open>The two mutable classes\<close>

text \<open>
  \<open>struct Block\<close>: the private \<open>Jump *_transition\<close> (read through \<open>getTransition\<close>), the name,
  the vector of predecessor pointers and the vector of statement pointers.
\<close>

record Block =
  transition :: ptr
  name :: string
  predecessors :: "ptr list"
  contents :: "ptr list"

text \<open>
  \<open>class FunctionRecord\<close>. The member \<open>Block entry\<close> is a sub-object with an address of its
  own (\<open>&f.entry\<close>), which jumps and predecessor vectors of other blocks may hold; it is
  kept in a store cell of its own and the record holds that cell's address. The source's
  field \<open>id\<close> is called \<open>id'\<close>.
\<close>

record FunctionRecord =
  id' :: "16 word"
  entry :: addr
  parametersIds :: "64 word list"
  pool :: "string list"
  returnType :: VarType

subsection \<open>Objects and the store\<close>

text \<open>
  One constructor per concrete class, its arguments being the class's data members in the
  order of their declaration. \<open>Int'\<close> (the source's \<open>Int\<close>) holds an \<open>int64_t\<close> and \<open>Double\<close> the 64 bits of a
  \<open>double\<close>; neither is ever computed with here. \<open>Assignment\<close> holds its \<open>Variable\<close> by
  value, that is the variable's id.
\<close>

datatype IrElement =
    BinOp ptr ptr BinOp_Type
  | UnOp ptr UnOp_Type
  | Variable "64 word"
  | Return ptr
  | Phi "ptr list"
  | Int' "64 word"
  | Double "64 word"
  | Ptr "64 word" bool
  | Block Block
  | Assignment "64 word" ptr
  | Call "ptr list" "16 word"
  | Print ptr
  | FunctionRecord FunctionRecord
  | JumpAlways ptr
  | JumpCond ptr ptr ptr

type_synonym store = "IrElement list"

text \<open>Allocation of a new object: the next free address is the length of the store.\<close>

definition alloc :: "store \<Rightarrow> IrElement \<Rightarrow> addr \<times> store" where
  "alloc h obj = (length h, h @ [obj])"

text \<open>Reading through a pointer. \<open>None\<close> is the undefined behaviour of dereferencing a
  null pointer or one that points to no object.\<close>

definition deref :: "store \<Rightarrow> ptr \<Rightarrow> IrElement option" where
  "deref h p = (case p of NULL \<Rightarrow> None
                | Addr a \<Rightarrow> if a < length h then Some (h ! a) else None)"

text \<open>Reading through a \<open>Block *\<close>, a \<open>FunctionRecord *\<close>: \<open>None\<close> also when the object
  there is of another class.\<close>

definition get_Block :: "store \<Rightarrow> ptr \<Rightarrow> Block option" where
  "get_Block h p = (case deref h p of Some (Block b) \<Rightarrow> Some b | _ \<Rightarrow> None)"

definition get_FunctionRecord :: "store \<Rightarrow> ptr \<Rightarrow> FunctionRecord option" where
  "get_FunctionRecord h p = (case deref h p of Some (FunctionRecord f) \<Rightarrow> Some f | _ \<Rightarrow> None)"

subsection \<open>Constructors\<close>

text \<open>Each constructor of the header only initialises the members from its arguments;
  none of them tests an argument. \<open>Phi\<close> has the implicit default constructor.\<close>

definition new_Variable :: "store \<Rightarrow> 64 word \<Rightarrow> addr \<times> store" where
  "new_Variable h i = alloc h (Variable i)"

definition new_JumpAlways :: "store \<Rightarrow> ptr \<Rightarrow> addr \<times> store" where
  "new_JumpAlways h dest = alloc h (JumpAlways dest)"

definition new_JumpCond :: "store \<Rightarrow> ptr \<Rightarrow> ptr \<Rightarrow> ptr \<Rightarrow> addr \<times> store" where
  "new_JumpCond h y n condition = alloc h (JumpCond y n condition)"

definition new_Assignment :: "store \<Rightarrow> 64 word \<Rightarrow> ptr \<Rightarrow> addr \<times> store" where
  "new_Assignment h var expr = alloc h (Assignment var expr)"

definition new_Return :: "store \<Rightarrow> ptr \<Rightarrow> addr \<times> store" where
  "new_Return h atom = alloc h (Return atom)"

definition new_Phi :: "store \<Rightarrow> addr \<times> store" where
  "new_Phi h = alloc h (Phi [])"

definition new_Call :: "store \<Rightarrow> 16 word \<Rightarrow> ptr list \<Rightarrow> addr \<times> store" where
  "new_Call h i params = alloc h (Call params i)"

definition new_BinOp :: "store \<Rightarrow> ptr \<Rightarrow> ptr \<Rightarrow> BinOp_Type \<Rightarrow> addr \<times> store" where
  "new_BinOp h l r t = alloc h (BinOp l r t)"

definition new_UnOp :: "store \<Rightarrow> ptr \<Rightarrow> UnOp_Type \<Rightarrow> addr \<times> store" where
  "new_UnOp h operand t = alloc h (UnOp operand t)"

definition new_Int :: "store \<Rightarrow> 64 word \<Rightarrow> addr \<times> store" where
  "new_Int h v = alloc h (Int' v)"

definition new_Double :: "store \<Rightarrow> 64 word \<Rightarrow> addr \<times> store" where
  "new_Double h v = alloc h (Double v)"

definition new_Ptr :: "store \<Rightarrow> 64 word \<Rightarrow> bool \<Rightarrow> addr \<times> store" where
  "new_Ptr h v isPooledString = alloc h (Ptr v isPooledString)"

definition new_Print :: "store \<Rightarrow> ptr \<Rightarrow> addr \<times> store" where
  "new_Print h atom = alloc h (Print atom)"

text \<open>\<open>Block(std::string const &name) : name(name), _transition(NULL)\<close>; the two vectors
  are default-initialised, that is empty.\<close>

definition Block_init :: "string \<Rightarrow> Block" where
  "Block_init nm = \<lparr>transition = NULL, name = nm, predecessors = [], contents = []\<rparr>"

definition new_Block :: "store \<Rightarrow> string \<Rightarrow> addr \<times> store" where
  "new_Block h nm = alloc h (Block (Block_init nm))"

text \<open>Modelled from the spec: the decimal digits of a number, most significant first,
  without sign or leading zeros (what \<open>toString\<close> below renders).\<close>

definition digit_char :: "nat \<Rightarrow> char" where
  "digit_char d = ''0123456789'' ! d"

fun decimal :: "nat \<Rightarrow> string" where
  "decimal n = (if n < 10 then [digit_char n] else decimal (n div 10) @ [digit_char (n mod 10)])"

declare decimal.simps [simp del]

text \<open>Modelled from the spec: \<open>mathvm::toString\<close> is defined in util.h, not in this
  header; it is taken to give the decimal rendering of the id.\<close>

definition toString :: "16 word \<Rightarrow> string" where
  "toString i = decimal (unat i)"

text \<open>\<open>FunctionRecord(uint16_t id, VarType returnType) : id(id),
  entry(Block(mathvm::toString(id))), returnType(returnType)\<close>; the parameter ids and the
  pool are default-initialised.\<close>

definition new_FunctionRecord :: "store \<Rightarrow> 16 word \<Rightarrow> VarType \<Rightarrow> addr \<times> store" where
  "new_FunctionRecord h i rt =
     (let (e, h1) = new_Block h (toString i)
      in alloc h1 (FunctionRecord
           \<lparr>id' = i, entry = e, parametersIds = [], pool = [], returnType = rt\<rparr>))"

subsection \<open>Block::link\<close>

text \<open>\<open>getTransition\<close>, called on the block at \<open>this\<close>.\<close>

definition getTransition :: "store \<Rightarrow> addr \<Rightarrow> ptr option" where
  "getTransition h this = map_option transition (get_Block h (Addr this))"

text \<open>A write to members of the block that a \<open>Block *p\<close> points to: the cell is
  replaced by the changed block. \<open>None\<close> when \<open>p\<close> does not point to a block.\<close>

definition update_Block :: "store \<Rightarrow> ptr \<Rightarrow> (Block \<Rightarrow> Block) \<Rightarrow> store option" where
  "update_Block h p f =
     (case p of
        NULL \<Rightarrow> None
      | Addr t \<Rightarrow>
          (case get_Block h p of
             None \<Rightarrow> None
           | Some b \<Rightarrow> Some (h[t := Block (f b)])))"

text \<open>The assignment \<open>_transition = j\<close> inside a member function of the block at \<open>this\<close>.\<close>

definition set_transition :: "store \<Rightarrow> addr \<Rightarrow> ptr \<Rightarrow> store option" where
  "set_transition h this j = update_Block h (Addr this) (\<lambda>b. b\<lparr>transition := j\<rparr>)"

text \<open>\<open>p->predecessors.push_back(x)\<close> for a \<open>Block *p\<close>.\<close>

definition push_predecessor :: "store \<Rightarrow> ptr \<Rightarrow> ptr \<Rightarrow> store option" where
  "push_predecessor h p x =
     update_Block h p (\<lambda>b. b\<lparr>predecessors := predecessors b @ [x]\<rparr>)"

text \<open>\<open>p->contents.push_back(s)\<close>: the way a caller puts a statement into a block, the
  vector being a public member.\<close>

definition push_statement :: "store \<Rightarrow> ptr \<Rightarrow> ptr \<Rightarrow> store option" where
  "push_statement h p s = update_Block h p (\<lambda>b. b\<lparr>contents := contents b @ [s]\<rparr>)"

text \<open>Reading \<open>cond->yes\<close> and \<open>cond->no\<close> through a \<open>JumpCond *cond\<close>.\<close>

definition JumpCond_yes :: "store \<Rightarrow> ptr \<Rightarrow> ptr option" where
  "JumpCond_yes h cond = (case deref h cond of Some (JumpCond y n c) \<Rightarrow> Some y | _ \<Rightarrow> None)"

definition JumpCond_no :: "store \<Rightarrow> ptr \<Rightarrow> ptr option" where
  "JumpCond_no h cond = (case deref h cond of Some (JumpCond y n c) \<Rightarrow> Some n | _ \<Rightarrow> None)"

text \<open>
  \<open>void link(JumpCond *cond)\<close>, three statements in the source's order. There is no test
  of \<open>_transition\<close> before the assignment and no failure path; \<open>None\<close> is only the
  undefined behaviour of a pointer that does not point to an object of its type.
\<close>

definition link_cond :: "store \<Rightarrow> addr \<Rightarrow> ptr \<Rightarrow> store option" where
  "link_cond h this cond = do {
     h1 \<leftarrow> set_transition h this cond;
     y \<leftarrow> JumpCond_yes h1 cond;
     h2 \<leftarrow> push_predecessor h1 y (Addr this);
     n \<leftarrow> JumpCond_no h2 cond;
     push_predecessor h2 n (Addr this)
   }"

text \<open>\<open>void link(Block *next)\<close>: a new \<open>JumpAlways\<close> is allocated and becomes the
  transition, then \<open>this\<close> is pushed onto the predecessors of \<open>next\<close>.\<close>

definition link_always :: "store \<Rightarrow> addr \<Rightarrow> ptr \<Rightarrow> store option" where
  "link_always h this next = do {
     h2 \<leftarrow> (case new_JumpAlways h next of (j, h1) \<Rightarrow> set_transition h1 this (Addr j));
     push_predecessor h2 next (Addr this)
   }"

subsection \<open>Sequences of construction and linking operations\<close>

datatype op =
    NewVariable "64 word"
  | NewJumpAlways ptr
  | NewJumpCond ptr ptr ptr
  | NewAssignment "64 word" ptr
  | NewReturn ptr
  | NewPhi
  | NewCall "16 word" "ptr list"
  | NewBinOp ptr ptr BinOp_Type
  | NewUnOp ptr UnOp_Type
  | NewInt "64 word"
  | NewDouble "64 word"
  | NewPtr "64 word" bool
  | NewPrint ptr
  | NewBlock string
  | NewFunctionRecord "16 word" VarType
  | PushStatement ptr ptr
  | LinkCond addr ptr
  | LinkAlways addr ptr

fun exec :: "op \<Rightarrow> store \<Rightarrow> store option" where
  "exec (NewVariable i) h = Some (snd (new_Variable h i))"
| "exec (NewJumpAlways d) h = Some (snd (new_JumpAlways h d))"
| "exec (NewJumpCond y n c) h = Some (snd (new_JumpCond h y n c))"
| "exec (NewAssignment v e) h = Some (snd (new_Assignment h v e))"
| "exec (NewReturn a) h = Some (snd (new_Return h a))"
| "exec NewPhi h = Some (snd (new_Phi h))"
| "exec (NewCall i ps) h = Some (snd (new_Call h i ps))"
| "exec (NewBinOp l r t) h = Some (snd (new_BinOp h l r t))"
| "exec (NewUnOp e t) h = Some (snd (new_UnOp h e t))"
| "exec (NewInt v) h = Some (snd (new_Int h v))"
| "exec (NewDouble v) h = Some (snd (new_Double h v))"
| "exec (NewPtr v b) h = Some (snd (new_Ptr h v b))"
| "exec (NewPrint a) h = Some (snd (new_Print h a))"
| "exec (NewBlock nm) h = Some (snd (new_Block h nm))"
| "exec (NewFunctionRecord i rt) h = Some (snd (new_FunctionRecord h i rt))"
| "exec (PushStatement p s) h = push_statement h p s"
| "exec (LinkCond b c) h = link_cond h b c"
| "exec (LinkAlways b t) h = link_always h b t"

text \<open>A sequence runs to the end only if every operation in it is defined.\<close>

fun run :: "op list \<Rightarrow> store \<Rightarrow> store option" where
  "run [] h = Some h"
| "run (x # xs) h = (case exec x h of None \<Rightarrow> None | Some h' \<Rightarrow> run xs h')"

subsection \<open>The graph read off a store\<close>

definition is_Block :: "store \<Rightarrow> ptr \<Rightarrow> bool" where
  "is_Block h p = (case get_Block h p of None \<Rightarrow> False | Some b \<Rightarrow> True)"

text \<open>The addresses of the blocks of a store.\<close>

definition blocks :: "store \<Rightarrow> addr list" where
  "blocks h = filter (\<lambda>a. is_Block h (Addr a)) [0..<length h]"

text \<open>The predecessor vector of the block at an address.\<close>

definition predecessors_of :: "store \<Rightarrow> addr \<Rightarrow> ptr list" where
  "predecessors_of h t = (case get_Block h (Addr t) of None \<Rightarrow> [] | Some b \<Rightarrow> predecessors b)"

text \<open>The blocks that a jump names: the destination of a \<open>JumpAlways\<close>, the yes and the
  no target of a \<open>JumpCond\<close>; nothing for a pointer to no jump.\<close>

definition jump_targets :: "store \<Rightarrow> ptr \<Rightarrow> ptr list" where
  "jump_targets h j =
     (case deref h j of
        Some (JumpAlways d) \<Rightarrow> [d]
      | Some (JumpCond y n c) \<Rightarrow> [y, n]
      | _ \<Rightarrow> [])"

text \<open>The transition edges leaving the block at an address: the targets of its
  transition, none while the transition is null.\<close>

definition targets :: "store \<Rightarrow> addr \<Rightarrow> ptr list" where
  "targets h b =
     (case get_Block h (Addr b) of
        None \<Rightarrow> []
      | Some blk \<Rightarrow> jump_targets h (transition blk))"

text \<open>Predecessor vectors are the exact inverse of the transition edges: they hold
  addresses of blocks only, and block \<open>b\<close> occurs in the predecessors of block \<open>t\<close> as
  often as \<open>t\<close> occurs among the targets of \<open>b\<close>.\<close>

definition edges_inverse :: "store \<Rightarrow> bool" where
  "edges_inverse h =
     (\<forall>t \<in> set (blocks h).
        set (predecessors_of h t) \<subseteq> Addr ` set (blocks h) \<and>
        (\<forall>b \<in> set (blocks h).
           count_list (predecessors_of h t) (Addr b) = count_list (targets h b) (Addr t)))"

text \<open>A block is unlinked while its transition is null.\<close>

definition unlinked :: "store \<Rightarrow> addr \<Rightarrow> bool" where
  "unlinked h b = (getTransition h b = Some NULL)"

text \<open>An operation that, if it is a link, links a block that has no transition yet.\<close>

fun first_link :: "op \<Rightarrow> store \<Rightarrow> bool" where
  "first_link (LinkCond b c) h = unlinked h b"
| "first_link (LinkAlways b t) h = unlinked h b"
| "first_link x h = True"

text \<open>A sequence in which no block is linked a second time.\<close>

fun links_once :: "op list \<Rightarrow> store \<Rightarrow> bool" where
  "links_once [] h = True"
| "links_once (x # xs) h =
     (first_link x h \<and> (case exec x h of None \<Rightarrow> True | Some h' \<Rightarrow> links_once xs h'))"

fun is_link :: "op \<Rightarrow> bool" where
  "is_link (LinkCond b c) = True"
| "is_link (LinkAlways b t) = True"
| "is_link x = False"

subsection \<open>Tag queries, tests and casts\<close>

text \<open>\<open>getType\<close>: \<open>IR_COMMON_FUNCTIONS(ir)\<close> defines it in class \<open>ir\<close> as returning
  \<open>IT_##ir\<close>.\<close>

fun getType :: "IrElement \<Rightarrow> IrType" where
  "getType (BinOp l r t) = IT_BinOp"
| "getType (UnOp e t) = IT_UnOp"
| "getType (Variable i) = IT_Variable"
| "getType (Return a) = IT_Return"
| "getType (Phi vs) = IT_Phi"
| "getType (Int' v) = IT_Int"
| "getType (Double v) = IT_Double"
| "getType (Ptr v s) = IT_Ptr"
| "getType (Block b) = IT_Block"
| "getType (Assignment v e) = IT_Assignment"
| "getType (Call ps i) = IT_Call"
| "getType (Print a) = IT_Print"
| "getType (FunctionRecord f) = IT_FunctionRecord"
| "getType (JumpAlways d) = IT_JumpAlways"
| "getType (JumpCond y n c) = IT_JumpCond"

text \<open>
  The virtual functions \<open>is##ir\<close> and \<open>as##ir\<close>, one of each for every class \<open>ir\<close> of
  the list \<open>FOR_IR\<close>, indexed by the tag of \<open>ir\<close>. \<open>HELPER\<close> gives \<open>IrElement\<close> the defaults:
  \<open>return false\<close> and \<open>return NULL\<close>. There is no such function for \<open>IT_INVALID\<close>; at
  that index the model has the defaults.
\<close>

definition IrElement_is :: "IrType \<Rightarrow> bool" where
  "IrElement_is k = False"

definition IrElement_as :: "IrType \<Rightarrow> addr \<Rightarrow> ptr" where
  "IrElement_as k this = NULL"

text \<open>\<open>IR_COMMON_FUNCTIONS(ir)\<close> overrides in class \<open>ir\<close> the two functions of that class's
  own name (\<open>return true\<close>, \<open>return this\<close>); the others are inherited. One equation per
  class, for a call on the object \<open>x\<close> at address \<open>this\<close>.\<close>

fun is_ir :: "IrType \<Rightarrow> IrElement \<Rightarrow> bool" where
  "is_ir k (BinOp l r t) = (case k of IT_BinOp \<Rightarrow> True | _ \<Rightarrow> IrElement_is k)"
| "is_ir k (UnOp e t) = (case k of IT_UnOp \<Rightarrow> True | _ \<Rightarrow> IrElement_is k)"
| "is_ir k (Variable i) = (case k of IT_Variable \<Rightarrow> True | _ \<Rightarrow> IrElement_is k)"
| "is_ir k (Return a) = (case k of IT_Return \<Rightarrow> True | _ \<Rightarrow> IrElement_is k)"
| "is_ir k (Phi vs) = (case k of IT_Phi \<Rightarrow> True | _ \<Rightarrow> IrElement_is k)"
| "is_ir k (Int' v) = (case k of IT_Int \<Rightarrow> True | _ \<Rightarrow> IrElement_is k)"
| "is_ir k (Double v) = (case k of IT_Double \<Rightarrow> True | _ \<Rightarrow> IrElement_is k)"
| "is_ir k (Ptr v s) = (case k of IT_Ptr \<Rightarrow> True | _ \<Rightarrow> IrElement_is k)"
| "is_ir k (Block b) = (case k of IT_Block \<Rightarrow> True | _ \<Rightarrow> IrElement_is k)"
| "is_ir k (Assignment v e) = (case k of IT_Assignment \<Rightarrow> True | _ \<Rightarrow> IrElement_is k)"
| "is_ir k (Call ps i) = (case k of IT_Call \<Rightarrow> True | _ \<Rightarrow> IrElement_is k)"
| "is_ir k (Print a) = (case k of IT_Print \<Rightarrow> True | _ \<Rightarrow> IrElement_is k)"
| "is_ir k (FunctionRecord f) = (case k of IT_FunctionRecord \<Rightarrow> True | _ \<Rightarrow> IrElement_is k)"
| "is_ir k (JumpAlways d) = (case k of IT_JumpAlways \<Rightarrow> True | _ \<Rightarrow> IrElement_is k)"
| "is_ir k (JumpCond y n c) = (case k of IT_JumpCond \<Rightarrow> True | _ \<Rightarrow> IrElement_is k)"

fun as_ir :: "IrType \<Rightarrow> addr \<Rightarrow> IrElement \<Rightarrow> ptr" where
  "as_ir k this (BinOp l r t) = (case k of IT_BinOp \<Rightarrow> Addr this | _ \<Rightarrow> IrElement_as k this)"
| "as_ir k this (UnOp e t) = (case k of IT_UnOp \<Rightarrow> Addr this | _ \<Rightarrow> IrElement_as k this)"
| "as_ir k this (Variable i) = (case k of IT_Variable \<Rightarrow> Addr this | _ \<Rightarrow> IrElement_as k this)"
| "as_ir k this (Return a) = (case k of IT_Return \<Rightarrow> Addr this | _ \<Rightarrow> IrElement_as k this)"
| "as_ir k this (Phi vs) = (case k of IT_Phi \<Rightarrow> Addr this | _ \<Rightarrow> IrElement_as k this)"
| "as_ir k this (Int' v) = (case k of IT_Int \<Rightarrow> Addr this | _ \<Rightarrow> IrElement_as k this)"
| "as_ir k this (Double v) = (case k of IT_Double \<Rightarrow> Addr this | _ \<Rightarrow> IrElement_as k this)"
| "as_ir k this (Ptr v s) = (case k of IT_Ptr \<Rightarrow> Addr this | _ \<Rightarrow> IrElement_as k this)"
| "as_ir k this (Block b) = (case k of IT_Block \<Rightarrow> Addr this | _ \<Rightarrow> IrElement_as k this)"
| "as_ir k this (Assignment v e) = (case k of IT_Assignment \<Rightarrow> Addr this | _ \<Rightarrow> IrElement_as k this)"
| "as_ir k this (Call ps i) = (case k of IT_Call \<Rightarrow> Addr this | _ \<Rightarrow> IrElement_as k this)"
| "as_ir k this (Print a) = (case k of IT_Print \<Rightarrow> Addr this | _ \<Rightarrow> IrElement_as k this)"
| "as_ir k this (FunctionRecord f) = (case k of IT_FunctionRecord \<Rightarrow> Addr this | _ \<Rightarrow> IrElement_as k this)"
| "as_ir k this (JumpAlways d) = (case k of IT_JumpAlways \<Rightarrow> Addr this | _ \<Rightarrow> IrElement_as k this)"
| "as_ir k this (JumpCond y n c) = (case k of IT_JumpCond \<Rightarrow> Addr this | _ \<Rightarrow> IrElement_as k this)"

subsection \<open>Visitors\<close>

text \<open>
  \<open>struct IrVisitor\<close>: one pure virtual \<open>visit(const ir *const expr)\<close> per class \<open>ir\<close>,
  returning an \<open>IrElement *\<close>. A visitor may have state of its own, so a handler takes the
  state \<open>'s\<close> and returns it with its result.
\<close>

type_synonym 's handler = "addr \<Rightarrow> 's \<Rightarrow> ptr \<times> 's"

record 's IrVisitor =
  visit_BinOp :: "'s handler"
  visit_UnOp :: "'s handler"
  visit_Variable :: "'s handler"
  visit_Return :: "'s handler"
  visit_Phi :: "'s handler"
  visit_Int :: "'s handler"
  visit_Double :: "'s handler"
  visit_Ptr :: "'s handler"
  visit_Block :: "'s handler"
  visit_Assignment :: "'s handler"
  visit_Call :: "'s handler"
  visit_Print :: "'s handler"
  visit_FunctionRecord :: "'s handler"
  visit_JumpAlways :: "'s handler"
  visit_JumpCond :: "'s handler"

text \<open>The overload of \<open>IrVisitor::visit\<close> for a pointer to the class with a given tag;
  there is none for \<open>IT_INVALID\<close>.\<close>

fun overload :: "'s IrVisitor \<Rightarrow> IrType \<Rightarrow> 's handler option" where
  "overload v IT_BinOp = Some (visit_BinOp v)"
| "overload v IT_UnOp = Some (visit_UnOp v)"
| "overload v IT_Variable = Some (visit_Variable v)"
| "overload v IT_Return = Some (visit_Return v)"
| "overload v IT_Phi = Some (visit_Phi v)"
| "overload v IT_Int = Some (visit_Int v)"
| "overload v IT_Double = Some (visit_Double v)"
| "overload v IT_Ptr = Some (visit_Ptr v)"
| "overload v IT_Block = Some (visit_Block v)"
| "overload v IT_Assignment = Some (visit_Assignment v)"
| "overload v IT_Call = Some (visit_Call v)"
| "overload v IT_Print = Some (visit_Print v)"
| "overload v IT_FunctionRecord = Some (visit_FunctionRecord v)"
| "overload v IT_JumpAlways = Some (visit_JumpAlways v)"
| "overload v IT_JumpCond = Some (visit_JumpCond v)"
| "overload v IT_INVALID = None"

text \<open>What a call of a function declared to return a value hands back: the value of the
  \<open>return\<close> statement it executed, or nothing when control reached the closing brace
  without one (undefined behaviour in C++ for a function that is not \<open>void\<close>).\<close>

datatype 'a returned = Returned 'a | FlowsOffEnd

text \<open>
  The body \<open>{ v->visit(this); }\<close> that \<open>IR_COMMON_FUNCTIONS\<close> gives to \<open>visit\<close>: the handler
  is called as an expression statement, so its result is discarded, and the body ends
  without a \<open>return\<close>.
\<close>

definition visit_body :: "'s handler \<Rightarrow> addr \<Rightarrow> 's \<Rightarrow> ptr returned \<times> 's" where
  "visit_body f this s = (case f this s of (r, s') \<Rightarrow> (FlowsOffEnd, s'))"

text \<open>The virtual \<open>visit\<close> of the object \<open>x\<close> at address \<open>this\<close>: in class \<open>ir\<close> the static
  type of \<open>this\<close> is \<open>const ir *\<close>, which selects the overload.\<close>

fun visit :: "IrElement \<Rightarrow> addr \<Rightarrow> 's IrVisitor \<Rightarrow> 's \<Rightarrow> ptr returned \<times> 's" where
  "visit (BinOp l r t) this v = visit_body (visit_BinOp v) this"
| "visit (UnOp e t) this v = visit_body (visit_UnOp v) this"
| "visit (Variable i) this v = visit_body (visit_Variable v) this"
| "visit (Return a) this v = visit_body (visit_Return v) this"
| "visit (Phi vs) this v = visit_body (visit_Phi v) this"
| "visit (Int' x) this v = visit_body (visit_Int v) this"
| "visit (Double x) this v = visit_body (visit_Double v) this"
| "visit (Ptr x s) this v = visit_body (visit_Ptr v) this"
| "visit (Block b) this v = visit_body (visit_Block v) this"
| "visit (Assignment x e) this v = visit_body (visit_Assignment v) this"
| "visit (Call ps i) this v = visit_body (visit_Call v) this"
| "visit (Print a) this v = visit_body (visit_Print v) this"
| "visit (FunctionRecord f) this v = visit_body (visit_FunctionRecord v) this"
| "visit (JumpAlways d) this v = visit_body (visit_JumpAlways v) this"
| "visit (JumpCond y n c) this v = visit_body (visit_JumpCond v) this"

text \<open>A visitor that only records the tag of the handler that was called.\<close>

definition tracer :: "IrType list IrVisitor" where
  "tracer =
     \<lparr>visit_BinOp = (\<lambda>e s. (NULL, s @ [IT_BinOp])),
      visit_UnOp = (\<lambda>e s. (NULL, s @ [IT_UnOp])),
      visit_Variable = (\<lambda>e s. (NULL, s @ [IT_Variable])),
      visit_Return = (\<lambda>e s. (NULL, s @ [IT_Return])),
      visit_Phi = (\<lambda>e s. (NULL, s @ [IT_Phi])),
      visit_Int = (\<lambda>e s. (NULL, s @ [IT_Int])),
      visit_Double = (\<lambda>e s. (NULL, s @ [IT_Double])),
      visit_Ptr = (\<lambda>e s. (NULL, s @ [IT_Ptr])),
      visit_Block = (\<lambda>e s. (NULL, s @ [IT_Block])),
      visit_Assignment = (\<lambda>e s. (NULL, s @ [IT_Assignment])),
      visit_Call = (\<lambda>e s. (NULL, s @ [IT_Call])),
      visit_Print = (\<lambda>e s. (NULL, s @ [IT_Print])),
      visit_FunctionRecord = (\<lambda>e s. (NULL, s @ [IT_FunctionRecord])),
      visit_JumpAlways = (\<lambda>e s. (NULL, s @ [IT_JumpAlways])),
      visit_JumpCond = (\<lambda>e s. (NULL, s @ [IT_JumpCond]))\<rparr>"

text \<open>The identity-rewriting visitor: every handler returns the node it was given.\<close>

definition identity_visitor :: "unit IrVisitor" where
  "identity_visitor =
     \<lparr>visit_BinOp = (\<lambda>e s. (Addr e, s)),
      visit_UnOp = (\<lambda>e s. (Addr e, s)),
      visit_Variable = (\<lambda>e s. (Addr e, s)),
      visit_Return = (\<lambda>e s. (Addr e, s)),
      visit_Phi = (\<lambda>e s. (Addr e, s)),
      visit_Int = (\<lambda>e s. (Addr e, s)),
      visit_Double = (\<lambda>e s. (Addr e, s)),
      visit_Ptr = (\<lambda>e s. (Addr e, s)),
      visit_Block = (\<lambda>e s. (Addr e, s)),
      visit_Assignment = (\<lambda>e s. (Addr e, s)),
      visit_Call = (\<lambda>e s. (Addr e, s)),
      visit_Print = (\<lambda>e s. (Addr e, s)),
      visit_FunctionRecord = (\<lambda>e s. (Addr e, s)),
      visit_JumpAlways = (\<lambda>e s. (Addr e, s)),
      visit_JumpCond = (\<lambda>e s. (Addr e, s))\<rparr>"

subsection \<open>Invariants of the stores that construction and linking produce\<close>

text \<open>What the operations other than the two links do to a store, seen through its blocks
  and jumps: a block keeps its transition and its predecessors, a new block has neither,
  and an object that was there is still there, a jump with the same targets.\<close>

definition extends :: "store \<Rightarrow> store \<Rightarrow> bool" where
  "extends h h' =
     ((\<forall>q b. get_Block h q = Some b \<longrightarrow>
         (\<exists>b'. get_Block h' q = Some b' \<and> transition b' = transition b \<and>
               predecessors b' = predecessors b)) \<and>
      (\<forall>q b'. get_Block h q = None \<longrightarrow> get_Block h' q = Some b' \<longrightarrow>
         deref h q = None \<and> transition b' = NULL \<and> predecessors b' = []) \<and>
      (\<forall>j. deref h j \<noteq> None \<longrightarrow> jump_targets h' j = jump_targets h j \<and> deref h' j \<noteq> None))"

text \<open>The invariant of the sequences that link no block twice: a transition is null or
  points to an object, the targets of a transition and the predecessors of a block are
  blocks, and the predecessors count the transition edges.\<close>

definition graph_inv :: "store \<Rightarrow> bool" where
  "graph_inv h =
     ((\<forall>b bb. get_Block h b = Some bb \<longrightarrow>
         transition bb = NULL \<or> deref h (transition bb) \<noteq> None) \<and>
      (\<forall>b bb p. get_Block h b = Some bb \<longrightarrow> p \<in> set (jump_targets h (transition bb)) \<longrightarrow>
         is_Block h p) \<and>
      (\<forall>t bt p. get_Block h t = Some bt \<longrightarrow> p \<in> set (predecessors bt) \<longrightarrow> is_Block h p) \<and>
      (\<forall>t bt b bb. get_Block h t = Some bt \<longrightarrow> get_Block h b = Some bb \<longrightarrow>
         count_list (predecessors bt) b = count_list (jump_targets h (transition bb)) t))"

text \<open>The invariant of all sequences: whatever is among the predecessors of a block is a
  block that has a transition.\<close>

definition predecessors_linked :: "store \<Rightarrow> bool" where
  "predecessors_linked h =
     (\<forall>t bt p. get_Block h t = Some bt \<longrightarrow> p \<in> set (predecessors bt) \<longrightarrow>
        (\<exists>b. get_Block h p = Some b \<and> transition b \<noteq> NULL))"

section \<open>Basic facts about the store\<close>

lemma deref_NULL [simp]: "deref h NULL = None"
  by (simp add: deref_def)

lemma get_Block_NULL [simp]: "get_Block h NULL = None"
  by (simp add: get_Block_def)

lemma jump_targets_NULL [simp]: "jump_targets h NULL = []"
  by (simp add: jump_targets_def)

lemma deref_alloc: "deref (snd (alloc h obj)) = (deref h)(Addr (length h) := Some obj)"
  by (auto simp: deref_def alloc_def nth_append fun_eq_iff split: ptr.splits)

lemma deref_fresh: "deref h (Addr (length h)) = None"
  by (simp add: deref_def)

lemma get_Block_fresh: "get_Block h (Addr (length h)) = None"
  by (simp add: get_Block_def deref_fresh)

lemma get_Block_alloc:
  "get_Block (snd (alloc h obj)) p =
     (if p = Addr (length h) then (case obj of Block b \<Rightarrow> Some b | _ \<Rightarrow> None) else get_Block h p)"
  by (simp add: get_Block_def deref_alloc)

lemma jump_targets_alloc:
  "deref h j \<noteq> None \<Longrightarrow> jump_targets (snd (alloc h obj)) j = jump_targets h j"
  by (auto simp: jump_targets_def deref_alloc deref_fresh)

lemma jump_targets_alloc_new:
  "jump_targets (snd (alloc h obj)) (Addr (length h)) =
     (case obj of JumpAlways d \<Rightarrow> [d] | JumpCond y n c \<Rightarrow> [y, n] | _ \<Rightarrow> [])"
  by (simp add: jump_targets_def deref_alloc)

lemma valid_alloc: "deref h q \<noteq> None \<Longrightarrow> deref (snd (alloc h obj)) q \<noteq> None"
  by (simp add: deref_alloc)

lemma update_Block_deref:
  assumes "update_Block h p f = Some h'"
  shows "\<exists>b. get_Block h p = Some b \<and> deref h' = (deref h)(p := Some (Block (f b)))"
  using assms
  by (auto simp: update_Block_def get_Block_def deref_def fun_eq_iff
      split: ptr.splits option.splits if_splits IrElement.splits)

lemma update_Block_view:
  assumes "update_Block h p f = Some h'"
  shows "\<exists>b. get_Block h p = Some b \<and>
             (\<forall>q. get_Block h' q = (if q = p then Some (f b) else get_Block h q)) \<and>
             (\<forall>j. jump_targets h' j = jump_targets h j) \<and>
             (\<forall>q. (deref h' q = None) = (deref h q = None)) \<and>
             (\<forall>c. JumpCond_yes h' c = JumpCond_yes h c) \<and>
             (\<forall>c. JumpCond_no h' c = JumpCond_no h c) \<and>
             (\<forall>q. q \<noteq> p \<longrightarrow> deref h' q = deref h q)"
proof -
  from update_Block_deref [OF assms] obtain b where
    b: "get_Block h p = Some b" and d: "deref h' = (deref h)(p := Some (Block (f b)))"
    by blast
  from b have p: "deref h p = Some (Block b)"
    by (auto simp: get_Block_def split: option.splits IrElement.splits)
  have "\<forall>q. get_Block h' q = (if q = p then Some (f b) else get_Block h q)"
    by (simp add: get_Block_def d)
  moreover have "\<forall>j. jump_targets h' j = jump_targets h j"
    using p by (simp add: jump_targets_def d)
  moreover have "\<forall>q. (deref h' q = None) = (deref h q = None)"
    using p by (auto simp: d)
  moreover have "\<forall>c. JumpCond_yes h' c = JumpCond_yes h c"
    using p by (simp add: JumpCond_yes_def d)
  moreover have "\<forall>c. JumpCond_no h' c = JumpCond_no h c"
    using p by (simp add: JumpCond_no_def d)
  moreover have "\<forall>q. q \<noteq> p \<longrightarrow> deref h' q = deref h q"
    by (simp add: d)
  ultimately show ?thesis using b by blast
qed

lemma update_Block_defined:
  "get_Block h p = Some b \<Longrightarrow> \<exists>h'. update_Block h p f = Some h'"
  by (auto simp: update_Block_def get_Block_def deref_def split: ptr.splits)

lemma blocks_iff: "a \<in> set (blocks h) \<longleftrightarrow> is_Block h (Addr a)"
  by (auto simp: blocks_def is_Block_def get_Block_def deref_def split: option.splits)

lemma is_Block_iff: "is_Block h p \<longleftrightarrow> (\<exists>b. get_Block h p = Some b)"
  by (simp add: is_Block_def split: option.splits)

lemma get_Block_valid: "get_Block h p = Some b \<Longrightarrow> deref h p = Some (Block b)"
  by (auto simp: get_Block_def split: option.splits IrElement.splits)

text \<open>What a successful unconditional link does, seen through the blocks and the jumps.\<close>

lemma link_always_view:
  assumes "link_always h this next = Some h'"
  shows "\<exists>bt. get_Block h (Addr this) = Some bt \<and> is_Block h next \<and>
     (\<forall>q. get_Block h' q =
        map_option (\<lambda>b. b\<lparr>transition := (if q = Addr this then Addr (length h) else transition b),
                          predecessors := predecessors b @ (if q = next then [Addr this] else [])\<rparr>)
          (get_Block h q)) \<and>
     (\<forall>j. deref h j \<noteq> None \<longrightarrow> jump_targets h' j = jump_targets h j) \<and>
     jump_targets h' (Addr (length h)) = [next] \<and>
     (\<forall>q. deref h q \<noteq> None \<longrightarrow> deref h' q \<noteq> None) \<and>
     deref h' (Addr (length h)) = Some (JumpAlways next)"
proof -
  let ?h1 = "snd (alloc h (JumpAlways next))"
  from assms obtain h2 where
    h2: "update_Block ?h1 (Addr this) (\<lambda>b. b\<lparr>transition := Addr (length h)\<rparr>) = Some h2" and
    h': "update_Block h2 next (\<lambda>b. b\<lparr>predecessors := predecessors b @ [Addr this]\<rparr>) = Some h'"
    by (auto simp: link_always_def new_JumpAlways_def alloc_def set_transition_def
        push_predecessor_def split: Option.bind_splits)
  from update_Block_view [OF h2] obtain bt where
    bt: "get_Block ?h1 (Addr this) = Some bt" and
    g2: "\<And>q. get_Block h2 q = (if q = Addr this then Some (bt\<lparr>transition := Addr (length h)\<rparr>)
                                  else get_Block ?h1 q)" and
    j2: "\<And>j. jump_targets h2 j = jump_targets ?h1 j" and
    v2: "\<And>q. (deref h2 q = None) = (deref ?h1 q = None)" and
    d2: "\<And>q. q \<noteq> Addr this \<Longrightarrow> deref h2 q = deref ?h1 q"
    by blast
  from update_Block_view [OF h'] obtain bn where
    bn: "get_Block h2 next = Some bn" and
    g3: "\<And>q. get_Block h' q = (if q = next then Some (bn\<lparr>predecessors := predecessors bn @ [Addr this]\<rparr>)
                                  else get_Block h2 q)" and
    j3: "\<And>j. jump_targets h' j = jump_targets h2 j" and
    v3: "\<And>q. (deref h' q = None) = (deref h2 q = None)" and
    d3: "\<And>q. q \<noteq> next \<Longrightarrow> deref h' q = deref h2 q"
    by blast
  have g1: "\<And>q. get_Block ?h1 q = get_Block h q"
    by (simp add: get_Block_alloc get_Block_fresh)
  have bt': "get_Block h (Addr this) = Some bt" using bt g1 by simp
  have nb: "is_Block h next"
  proof (cases "next = Addr this")
    case True
    then show ?thesis using bt' by (simp add: is_Block_iff)
  next
    case False
    then have "get_Block h next = Some bn" using bn by (simp add: g2 g1)
    then show ?thesis by (simp add: is_Block_iff)
  qed
  have "\<forall>q. get_Block h' q =
        map_option (\<lambda>b. b\<lparr>transition := (if q = Addr this then Addr (length h) else transition b),
                          predecessors := predecessors b @ (if q = next then [Addr this] else [])\<rparr>)
          (get_Block h q)"
    using bn bt' by (auto simp: g3 g2 g1 option.map_ident split: if_splits)
  moreover have "\<forall>j. deref h j \<noteq> None \<longrightarrow> jump_targets h' j = jump_targets h j"
    by (simp add: j3 j2 jump_targets_alloc)
  moreover have "jump_targets h' (Addr (length h)) = [next]"
    by (simp add: j3 j2 jump_targets_alloc_new)
  moreover have "\<forall>q. deref h q \<noteq> None \<longrightarrow> deref h' q \<noteq> None"
    by (simp add: v3 v2 deref_alloc)
  moreover have "deref h' (Addr (length h)) = Some (JumpAlways next)"
  proof -
    have "Addr (length h) \<noteq> Addr this" "Addr (length h) \<noteq> next"
      using bt' nb by (auto simp: is_Block_iff get_Block_fresh)
    then show ?thesis by (simp add: d3 d2 deref_alloc)
  qed
  ultimately show ?thesis using bt' nb by blast
qed

lemma JumpCond_yes_no:
  "JumpCond_yes h c = Some y \<Longrightarrow> JumpCond_no h c = Some n \<Longrightarrow> \<exists>x. deref h c = Some (JumpCond y n x)"
  by (auto simp: JumpCond_yes_def JumpCond_no_def split: option.splits IrElement.splits)

lemma link_cond_view:
  assumes "link_cond h this cond = Some h'"
  shows "\<exists>bt y n c. get_Block h (Addr this) = Some bt \<and> deref h cond = Some (JumpCond y n c) \<and>
     is_Block h y \<and> is_Block h n \<and>
     (\<forall>q. get_Block h' q =
        map_option (\<lambda>b. b\<lparr>transition := (if q = Addr this then cond else transition b),
                          predecessors := predecessors b @ (if q = y then [Addr this] else [])
                                             @ (if q = n then [Addr this] else [])\<rparr>)
          (get_Block h q)) \<and>
     (\<forall>j. jump_targets h' j = jump_targets h j) \<and>
     (\<forall>q. (deref h' q = None) = (deref h q = None)) \<and>
     deref h' cond = Some (JumpCond y n c)"
proof -
  from assms obtain h1 y h2 n where
    h1: "update_Block h (Addr this) (\<lambda>b. b\<lparr>transition := cond\<rparr>) = Some h1" and
    y: "JumpCond_yes h1 cond = Some y" and
    h2: "update_Block h1 y (\<lambda>b. b\<lparr>predecessors := predecessors b @ [Addr this]\<rparr>) = Some h2" and
    n: "JumpCond_no h2 cond = Some n" and
    h': "update_Block h2 n (\<lambda>b. b\<lparr>predecessors := predecessors b @ [Addr this]\<rparr>) = Some h'"
    by (auto simp: link_cond_def set_transition_def push_predecessor_def split: Option.bind_splits)
  from update_Block_view [OF h1] obtain bt where
    bt: "get_Block h (Addr this) = Some bt" and
    g1: "\<And>q. get_Block h1 q = (if q = Addr this then Some (bt\<lparr>transition := cond\<rparr>)
                                  else get_Block h q)" and
    j1: "\<And>j. jump_targets h1 j = jump_targets h j" and
    v1: "\<And>q. (deref h1 q = None) = (deref h q = None)" and
    y1: "\<And>c. JumpCond_yes h1 c = JumpCond_yes h c" and
    n1: "\<And>c. JumpCond_no h1 c = JumpCond_no h c" and
    d1: "\<And>q. q \<noteq> Addr this \<Longrightarrow> deref h1 q = deref h q"
    by blast
  from update_Block_view [OF h2] obtain b_y where
    b_y: "get_Block h1 y = Some b_y" and
    g2: "\<And>q. get_Block h2 q =
            (if q = y then Some (b_y\<lparr>predecessors := predecessors b_y @ [Addr this]\<rparr>)
             else get_Block h1 q)" and
    j2: "\<And>j. jump_targets h2 j = jump_targets h1 j" and
    v2: "\<And>q. (deref h2 q = None) = (deref h1 q = None)" and
    n2: "\<And>c. JumpCond_no h2 c = JumpCond_no h1 c" and
    d2: "\<And>q. q \<noteq> y \<Longrightarrow> deref h2 q = deref h1 q"
    by blast
  from update_Block_view [OF h'] obtain b_n where
    b_n: "get_Block h2 n = Some b_n" and
    g3: "\<And>q. get_Block h' q =
            (if q = n then Some (b_n\<lparr>predecessors := predecessors b_n @ [Addr this]\<rparr>)
             else get_Block h2 q)" and
    j3: "\<And>j. jump_targets h' j = jump_targets h2 j" and
    v3: "\<And>q. (deref h' q = None) = (deref h2 q = None)" and
    d3: "\<And>q. q \<noteq> n \<Longrightarrow> deref h' q = deref h2 q"
    by blast
  from y n have "JumpCond_yes h cond = Some y" "JumpCond_no h cond = Some n"
    by (simp_all add: y1 n1 n2)
  from JumpCond_yes_no [OF this] obtain c where cj: "deref h cond = Some (JumpCond y n c)"
    by blast
  have yb: "is_Block h y"
    using b_y bt by (cases "y = Addr this") (simp_all add: g1 is_Block_iff)
  have nb: "is_Block h n"
    using b_n bt yb by (cases "n = y"; cases "n = Addr this") (simp_all add: g2 g1 is_Block_iff)
  have "\<forall>q. get_Block h' q =
        map_option (\<lambda>b. b\<lparr>transition := (if q = Addr this then cond else transition b),
                          predecessors := predecessors b @ (if q = y then [Addr this] else [])
                                             @ (if q = n then [Addr this] else [])\<rparr>)
          (get_Block h q)"
    using b_y b_n bt by (auto simp: g3 g2 g1 option.map_ident split: if_splits)
  moreover have "\<forall>j. jump_targets h' j = jump_targets h j"
    by (simp add: j3 j2 j1)
  moreover have "\<forall>q. (deref h' q = None) = (deref h q = None)"
    by (simp add: v3 v2 v1)
  moreover have "deref h' cond = Some (JumpCond y n c)"
  proof -
    have "cond \<noteq> Addr this" "cond \<noteq> y" "cond \<noteq> n"
      using bt yb nb cj by (auto simp: is_Block_iff dest: get_Block_valid)
    then show ?thesis by (simp add: d3 d2 d1 cj)
  qed
  ultimately show ?thesis using bt cj yb nb by blast
qed

section \<open>Operations other than links\<close>

lemma extends_alloc:
  assumes "\<And>b. obj \<noteq> Block b"
  shows "extends h (snd (alloc h obj))"
  using assms
  by (auto simp: extends_def get_Block_alloc jump_targets_alloc valid_alloc get_Block_fresh
      split: IrElement.splits if_splits)

lemma extends_new_Block: "extends h (snd (new_Block h nm))"
  by (auto simp: extends_def new_Block_def get_Block_alloc jump_targets_alloc valid_alloc
      get_Block_fresh deref_fresh Block_init_def split: if_splits)

lemma extends_trans:
  assumes "extends h1 h2" and "extends h2 h3"
  shows "extends h1 h3"
proof -
  have A: "\<exists>b'. get_Block h3 q = Some b' \<and> transition b' = transition b \<and>
               predecessors b' = predecessors b" if "get_Block h1 q = Some b" for q b
  proof -
    from that obtain b' where "get_Block h2 q = Some b'" "transition b' = transition b"
      "predecessors b' = predecessors b"
      using assms(1) unfolding extends_def by blast
    moreover from this obtain b'' where "get_Block h3 q = Some b''"
      "transition b'' = transition b'" "predecessors b'' = predecessors b'"
      using assms(2) unfolding extends_def by blast
    ultimately show ?thesis by simp
  qed
  have B: "deref h1 q = None \<and> transition b' = NULL \<and> predecessors b' = []"
    if a: "get_Block h1 q = None" "get_Block h3 q = Some b'" for q b'
  proof (cases "get_Block h2 q")
    case None
    with a(2) have "deref h2 q = None \<and> transition b' = NULL \<and> predecessors b' = []"
      using assms(2) unfolding extends_def by blast
    moreover have "deref h1 q = None"
      using calculation assms(1) unfolding extends_def by blast
    ultimately show ?thesis by simp
  next
    case (Some b2)
    with a(1) have 1: "deref h1 q = None \<and> transition b2 = NULL \<and> predecessors b2 = []"
      using assms(1) unfolding extends_def by blast
    from Some a(2) have "transition b' = transition b2 \<and> predecessors b' = predecessors b2"
      using assms(2) unfolding extends_def by fastforce
    with 1 show ?thesis by simp
  qed
  have C: "jump_targets h3 j = jump_targets h1 j \<and> deref h3 j \<noteq> None"
    if "deref h1 j \<noteq> None" for j
  proof -
    from that have "jump_targets h2 j = jump_targets h1 j \<and> deref h2 j \<noteq> None"
      using assms(1) unfolding extends_def by blast
    moreover from this have "jump_targets h3 j = jump_targets h2 j \<and> deref h3 j \<noteq> None"
      using assms(2) unfolding extends_def by blast
    ultimately show ?thesis by simp
  qed
  show ?thesis unfolding extends_def using A B C by blast
qed

lemma extends_new_FunctionRecord: "extends h (snd (new_FunctionRecord h i rt))"
proof -
  let ?h1 = "snd (new_Block h (toString i))"
  have "snd (new_FunctionRecord h i rt) =
          snd (alloc ?h1 (FunctionRecord \<lparr>id' = i, entry = fst (new_Block h (toString i)),
             parametersIds = [], pool = [], returnType = rt\<rparr>))"
    by (simp add: new_FunctionRecord_def split: prod.splits)
  moreover have "extends ?h1 \<dots>" by (rule extends_alloc) simp
  ultimately show ?thesis using extends_trans [OF extends_new_Block] by metis
qed

lemma extends_update_Block:
  assumes "update_Block h p f = Some h'"
    and "\<And>b. transition (f b) = transition b" and "\<And>b. predecessors (f b) = predecessors b"
  shows "extends h h'"
proof -
  from update_Block_view [OF assms(1)] obtain b where
    "get_Block h p = Some b"
    "\<And>q. get_Block h' q = (if q = p then Some (f b) else get_Block h q)"
    "\<And>j. jump_targets h' j = jump_targets h j"
    "\<And>q. (deref h' q = None) = (deref h q = None)"
    by blast
  then show ?thesis using assms(2,3) by (auto simp: extends_def)
qed

lemma exec_extends:
  assumes "exec x h = Some h'" and "\<not> is_link x"
  shows "extends h h'"
proof (cases x)
  case (NewBlock nm)
  then show ?thesis using assms extends_new_Block by auto
next
  case (NewFunctionRecord i rt)
  then show ?thesis using assms extends_new_FunctionRecord by auto
next
  case (PushStatement p s)
  then show ?thesis using assms
    by (auto simp: push_statement_def intro: extends_update_Block)
qed (use assms in \<open>auto simp: new_Variable_def new_JumpAlways_def new_JumpCond_def
      new_Assignment_def new_Return_def new_Phi_def new_Call_def new_BinOp_def new_UnOp_def
      new_Int_def new_Double_def new_Ptr_def new_Print_def intro: extends_alloc\<close>)

lemma extends_old:
  assumes "extends h h'" and "get_Block h q = Some b"
  obtains b' where "get_Block h' q = Some b'" "transition b' = transition b"
    "predecessors b' = predecessors b"
  using assms unfolding extends_def by blast

lemma extends_cases:
  assumes "extends h h'" and "get_Block h' q = Some b'"
  obtains (old) b where "get_Block h q = Some b" "transition b' = transition b"
      "predecessors b' = predecessors b"
  | (new) "get_Block h q = None" "deref h q = None" "transition b' = NULL" "predecessors b' = []"
proof (cases "get_Block h q")
  case None
  with assms have "deref h q = None \<and> transition b' = NULL \<and> predecessors b' = []"
    unfolding extends_def by blast
  with None show ?thesis using new by blast
next
  case (Some b)
  with assms obtain b'' where "get_Block h' q = Some b''" "transition b'' = transition b"
    "predecessors b'' = predecessors b"
    unfolding extends_def by blast
  with assms(2) Some show ?thesis using old by simp
qed

lemma extends_is_Block: "extends h h' \<Longrightarrow> is_Block h p \<Longrightarrow> is_Block h' p"
  unfolding extends_def is_Block_iff by blast

lemma extends_jump_targets:
  assumes "extends h h'" and "j = NULL \<or> deref h j \<noteq> None"
  shows "jump_targets h' j = jump_targets h j"
  using assms unfolding extends_def by auto

lemma graph_inv_empty: "graph_inv []"
  by (simp add: graph_inv_def get_Block_def deref_def split: ptr.splits)

lemma graph_invD:
  assumes "graph_inv h"
  shows "\<And>b bb. get_Block h b = Some bb \<Longrightarrow> transition bb = NULL \<or> deref h (transition bb) \<noteq> None"
    and "\<And>b bb p. get_Block h b = Some bb \<Longrightarrow> p \<in> set (jump_targets h (transition bb)) \<Longrightarrow> is_Block h p"
    and "\<And>t bt p. get_Block h t = Some bt \<Longrightarrow> p \<in> set (predecessors bt) \<Longrightarrow> is_Block h p"
    and "\<And>t bt b bb. get_Block h t = Some bt \<Longrightarrow> get_Block h b = Some bb \<Longrightarrow>
          count_list (predecessors bt) b = count_list (jump_targets h (transition bb)) t"
  using assms unfolding graph_inv_def by blast+

lemma graph_inv_extends:
  assumes inv: "graph_inv h" and ext: "extends h h'"
  shows "graph_inv h'"
proof -
  note I = graph_invD [OF inv]
  have J: "jump_targets h' (transition bb) = jump_targets h (transition bb)"
    if "get_Block h b = Some bb" for b bb
    using extends_jump_targets [OF ext] I(1) [OF that] by blast
  have P1: "transition bb' = NULL \<or> deref h' (transition bb') \<noteq> None"
    if "get_Block h' b = Some bb'" for b bb'
    using ext that
  proof (cases rule: extends_cases)
    case (old bb)
    with I(1) [OF old(1)] ext show ?thesis unfolding extends_def by auto
  next
    case new
    then show ?thesis by simp
  qed
  have P2: "is_Block h' p"
    if "get_Block h' b = Some bb'" "p \<in> set (jump_targets h' (transition bb'))" for b bb' p
    using ext that(1)
  proof (cases rule: extends_cases)
    case (old bb)
    with that(2) J [OF old(1)] have "p \<in> set (jump_targets h (transition bb))" by simp
    from I(2) [OF old(1) this] show ?thesis by (rule extends_is_Block [OF ext])
  next
    case new
    with that(2) show ?thesis by simp
  qed
  have P3: "is_Block h' p"
    if "get_Block h' t = Some bt'" "p \<in> set (predecessors bt')" for t bt' p
    using ext that(1)
  proof (cases rule: extends_cases)
    case (old bt)
    with that(2) have "p \<in> set (predecessors bt)" by simp
    from I(3) [OF old(1) this] show ?thesis by (rule extends_is_Block [OF ext])
  next
    case new
    with that(2) show ?thesis by simp
  qed
  have P4: "count_list (predecessors bt') b = count_list (jump_targets h' (transition bb')) t"
    if t: "get_Block h' t = Some bt'" and b: "get_Block h' b = Some bb'" for t bt' b bb'
    using ext t
  proof (cases rule: extends_cases)
    case told: (old bt)
    show ?thesis using ext b
    proof (cases rule: extends_cases)
      case (old bb)
      with told I(4) [OF told(1) old(1)] J [OF old(1)] show ?thesis by simp
    next
      case new
      have "b \<notin> set (predecessors bt)"
        using I(3) [OF told(1)] new(1) by (fastforce simp: is_Block_iff)
      with told new show ?thesis by simp
    qed
  next
    case tnew: new
    show ?thesis using ext b
    proof (cases rule: extends_cases)
      case (old bb)
      have "t \<notin> set (jump_targets h (transition bb))"
        using I(2) [OF old(1)] tnew(1) by (fastforce simp: is_Block_iff)
      with tnew old J [OF old(1)] show ?thesis by simp
    next
      case new
      with tnew show ?thesis by simp
    qed
  qed
  show ?thesis unfolding graph_inv_def using P1 P2 P3 P4 by blast
qed

lemma predecessors_linked_empty: "predecessors_linked []"
  by (simp add: predecessors_linked_def get_Block_def deref_def split: ptr.splits)

lemma predecessors_linked_extends:
  assumes inv: "predecessors_linked h" and ext: "extends h h'"
  shows "predecessors_linked h'"
proof -
  have "\<exists>b. get_Block h' p = Some b \<and> transition b \<noteq> NULL"
    if "get_Block h' t = Some bt'" "p \<in> set (predecessors bt')" for t bt' p
    using ext that(1)
  proof (cases rule: extends_cases)
    case (old bt)
    with that(2) inv obtain b where "get_Block h p = Some b" "transition b \<noteq> NULL"
      unfolding predecessors_linked_def by fastforce
    with ext show ?thesis by (metis extends_old)
  next
    case new
    with that(2) show ?thesis by simp
  qed
  then show ?thesis unfolding predecessors_linked_def by blast
qed

section \<open>The two links preserve the invariants\<close>

lemma graph_inv_link_always:
  assumes inv: "graph_inv h" and un: "unlinked h this" and l: "link_always h this next = Some h'"
  shows "graph_inv h'"
proof -
  note I = graph_invD [OF inv]
  from link_always_view [OF l] obtain bt where
    bt: "get_Block h (Addr this) = Some bt" and nb: "is_Block h next" and
    V: "\<And>q. get_Block h' q =
        map_option (\<lambda>b. b\<lparr>transition := (if q = Addr this then Addr (length h) else transition b),
                          predecessors := predecessors b @ (if q = next then [Addr this] else [])\<rparr>)
          (get_Block h q)" and
    JT: "\<And>j. deref h j \<noteq> None \<Longrightarrow> jump_targets h' j = jump_targets h j" and
    JN: "jump_targets h' (Addr (length h)) = [next]" and
    VAL: "\<And>q. deref h q \<noteq> None \<Longrightarrow> deref h' q \<noteq> None" and
    VN: "deref h' (Addr (length h)) = Some (JumpAlways next)"
    by blast
  from un bt have tn: "transition bt = NULL"
    by (simp add: unlinked_def getTransition_def)
  have B: "is_Block h' p = is_Block h p" for p
    by (simp add: is_Block_iff V)
  have tb: "is_Block h (Addr this)" using bt by (simp add: is_Block_iff)
  have T: "jump_targets h' (transition bb) = jump_targets h (transition bb)"
    if "get_Block h b = Some bb" for b bb
    using I(1) [OF that] JT by (auto simp: jump_targets_def)
  have P1: "transition bb' = NULL \<or> deref h' (transition bb') \<noteq> None"
    if "get_Block h' b = Some bb'" for b bb'
  proof -
    from that obtain bb where bb: "get_Block h b = Some bb" 
      and e: "transition bb' = (if b = Addr this then Addr (length h) else transition bb)"
      by (auto simp: V)
    show ?thesis using I(1) [OF bb] e VAL VN by auto
  qed
  have P2: "is_Block h' p"
    if "get_Block h' b = Some bb'" "p \<in> set (jump_targets h' (transition bb'))" for b bb' p
  proof -
    from that(1) obtain bb where bb: "get_Block h b = Some bb" 
      and e: "transition bb' = (if b = Addr this then Addr (length h) else transition bb)"
      by (auto simp: V)
    show ?thesis
    proof (cases "b = Addr this")
      case True
      with e that(2) JN nb show ?thesis by (simp add: B)
    next
      case False
      with e that(2) T [OF bb] have "p \<in> set (jump_targets h (transition bb))" by simp
      from I(2) [OF bb this] show ?thesis by (simp add: B)
    qed
  qed
  have P3: "is_Block h' p"
    if "get_Block h' t = Some bt'" "p \<in> set (predecessors bt')" for t bt' p
  proof -
    from that(1) obtain b0 where b0: "get_Block h t = Some b0" 
      and e: "predecessors bt' = predecessors b0 @ (if t = next then [Addr this] else [])"
      by (auto simp: V)
    from that(2) e have "p \<in> set (predecessors b0) \<or> p = Addr this" by (auto split: if_splits)
    then show ?thesis using I(3) [OF b0] tb by (auto simp: B)
  qed
  have P4: "count_list (predecessors bt') b = count_list (jump_targets h' (transition bb')) t"
    if t: "get_Block h' t = Some bt'" and b: "get_Block h' b = Some bb'" for t bt' b bb'
  proof -
    from t obtain b0 where b0: "get_Block h t = Some b0" 
      and e0: "predecessors bt' = predecessors b0 @ (if t = next then [Addr this] else [])"
      by (auto simp: V)
    from b obtain bb where bb: "get_Block h b = Some bb" 
      and e: "transition bb' = (if b = Addr this then Addr (length h) else transition bb)"
      by (auto simp: V)
    show ?thesis
    proof (cases "b = Addr this")
      case True
      with bb bt have "bb = bt" by simp
      with I(4) [OF b0 bb] tn have "count_list (predecessors b0) b = 0" by simp
      with True e e0 JN show ?thesis by auto
    next
      case False
      with I(4) [OF b0 bb] e e0 T [OF bb] show ?thesis by auto
    qed
  qed
  show ?thesis unfolding graph_inv_def using P1 P2 P3 P4 by blast
qed

lemma graph_inv_link_cond:
  assumes inv: "graph_inv h" and un: "unlinked h this" and l: "link_cond h this cond = Some h'"
  shows "graph_inv h'"
proof -
  note I = graph_invD [OF inv]
  from link_cond_view [OF l] obtain bt y n c where
    bt: "get_Block h (Addr this) = Some bt" and cj: "deref h cond = Some (JumpCond y n c)" and
    yb: "is_Block h y" and nb: "is_Block h n" and
    V: "\<And>q. get_Block h' q =
        map_option (\<lambda>b. b\<lparr>transition := (if q = Addr this then cond else transition b),
                          predecessors := predecessors b @ (if q = y then [Addr this] else [])
                                             @ (if q = n then [Addr this] else [])\<rparr>)
          (get_Block h q)" and
    JT: "\<And>j. jump_targets h' j = jump_targets h j" and
    VAL: "\<And>q. (deref h' q = None) = (deref h q = None)"
    by blast
  from un bt have tn: "transition bt = NULL"
    by (simp add: unlinked_def getTransition_def)
  have B: "is_Block h' p = is_Block h p" for p
    by (simp add: is_Block_iff V)
  have tb: "is_Block h (Addr this)" using bt by (simp add: is_Block_iff)
  have JC: "jump_targets h cond = [y, n]" using cj by (simp add: jump_targets_def)
  have P1: "transition bb' = NULL \<or> deref h' (transition bb') \<noteq> None"
    if "get_Block h' b = Some bb'" for b bb'
  proof -
    from that obtain bb where bb: "get_Block h b = Some bb" 
      and e: "transition bb' = (if b = Addr this then cond else transition bb)"
      by (auto simp: V)
    show ?thesis using I(1) [OF bb] e VAL cj by auto
  qed
  have P2: "is_Block h' p"
    if "get_Block h' b = Some bb'" "p \<in> set (jump_targets h' (transition bb'))" for b bb' p
  proof -
    from that(1) obtain bb where bb: "get_Block h b = Some bb" 
      and e: "transition bb' = (if b = Addr this then cond else transition bb)"
      by (auto simp: V)
    show ?thesis
    proof (cases "b = Addr this")
      case True
      with e that(2) JC yb nb show ?thesis by (auto simp: B JT)
    next
      case False
      with e that(2) have "p \<in> set (jump_targets h (transition bb))" by (simp add: JT)
      from I(2) [OF bb this] show ?thesis by (simp add: B)
    qed
  qed
  have P3: "is_Block h' p"
    if "get_Block h' t = Some bt'" "p \<in> set (predecessors bt')" for t bt' p
  proof -
    from that(1) obtain b0 where b0: "get_Block h t = Some b0" 
      and e: "predecessors bt' = predecessors b0 @ (if t = y then [Addr this] else [])
                                   @ (if t = n then [Addr this] else [])"
      by (auto simp: V)
    from that(2) e have "p \<in> set (predecessors b0) \<or> p = Addr this" by (auto split: if_splits)
    then show ?thesis using I(3) [OF b0] tb by (auto simp: B)
  qed
  have P4: "count_list (predecessors bt') b = count_list (jump_targets h' (transition bb')) t"
    if t: "get_Block h' t = Some bt'" and b: "get_Block h' b = Some bb'" for t bt' b bb'
  proof -
    from t obtain b0 where b0: "get_Block h t = Some b0" 
      and e0: "predecessors bt' = predecessors b0 @ (if t = y then [Addr this] else [])
                                   @ (if t = n then [Addr this] else [])"
      by (auto simp: V)
    from b obtain bb where bb: "get_Block h b = Some bb" 
      and e: "transition bb' = (if b = Addr this then cond else transition bb)"
      by (auto simp: V)
    show ?thesis
    proof (cases "b = Addr this")
      case True
      with bb bt have "bb = bt" by simp
      with I(4) [OF b0 bb] tn have "count_list (predecessors b0) b = 0" by simp
      with True e e0 JC show ?thesis by (auto simp: JT)
    next
      case False
      with I(4) [OF b0 bb] e e0 show ?thesis by (auto simp: JT)
    qed
  qed
  show ?thesis unfolding graph_inv_def using P1 P2 P3 P4 by blast
qed

lemma predecessors_linked_link_always:
  assumes inv: "predecessors_linked h" and l: "link_always h this next = Some h'"
  shows "predecessors_linked h'"
proof -
  from link_always_view [OF l] obtain bt where
    bt: "get_Block h (Addr this) = Some bt" and
    V: "\<And>q. get_Block h' q =
        map_option (\<lambda>b. b\<lparr>transition := (if q = Addr this then Addr (length h) else transition b),
                          predecessors := predecessors b @ (if q = next then [Addr this] else [])\<rparr>)
          (get_Block h q)"
    by blast
  have "\<exists>b. get_Block h' p = Some b \<and> transition b \<noteq> NULL"
    if "get_Block h' t = Some bt'" "p \<in> set (predecessors bt')" for t bt' p
  proof -
    from that(1) obtain b0 where b0: "get_Block h t = Some b0" 
      and e: "predecessors bt' = predecessors b0 @ (if t = next then [Addr this] else [])"
      by (auto simp: V)
    from that(2) e have "p \<in> set (predecessors b0) \<or> p = Addr this" by (auto split: if_splits)
    then show ?thesis
    proof
      assume "p \<in> set (predecessors b0)"
      with inv b0 obtain b where "get_Block h p = Some b" "transition b \<noteq> NULL"
        unfolding predecessors_linked_def by blast
      then show ?thesis by (simp add: V)
    next
      assume "p = Addr this"
      with bt show ?thesis by (simp add: V)
    qed
  qed
  then show ?thesis unfolding predecessors_linked_def by blast
qed

lemma predecessors_linked_link_cond:
  assumes inv: "predecessors_linked h" and l: "link_cond h this cond = Some h'"
  shows "predecessors_linked h'"
proof -
  from link_cond_view [OF l] obtain bt y n c where
    bt: "get_Block h (Addr this) = Some bt" and cj: "deref h cond = Some (JumpCond y n c)" and
    V: "\<And>q. get_Block h' q =
        map_option (\<lambda>b. b\<lparr>transition := (if q = Addr this then cond else transition b),
                          predecessors := predecessors b @ (if q = y then [Addr this] else [])
                                             @ (if q = n then [Addr this] else [])\<rparr>)
          (get_Block h q)"
    by blast
  from cj have cn: "cond \<noteq> NULL" by auto
  have "\<exists>b. get_Block h' p = Some b \<and> transition b \<noteq> NULL"
    if "get_Block h' t = Some bt'" "p \<in> set (predecessors bt')" for t bt' p
  proof -
    from that(1) obtain b0 where b0: "get_Block h t = Some b0" 
      and e: "predecessors bt' = predecessors b0 @ (if t = y then [Addr this] else [])
                                   @ (if t = n then [Addr this] else [])"
      by (auto simp: V)
    from that(2) e have "p \<in> set (predecessors b0) \<or> p = Addr this" by (auto split: if_splits)
    then show ?thesis
    proof
      assume "p \<in> set (predecessors b0)"
      with inv b0 obtain b where "get_Block h p = Some b" "transition b \<noteq> NULL"
        unfolding predecessors_linked_def by blast
      then show ?thesis using cn by (simp add: V)
    next
      assume "p = Addr this"
      with bt cn show ?thesis by (simp add: V)
    qed
  qed
  then show ?thesis unfolding predecessors_linked_def by blast
qed

section \<open>Sequences of operations\<close>

lemma exec_graph_inv:
  assumes "graph_inv h" and "first_link x h" and "exec x h = Some h'"
  shows "graph_inv h'"
proof (cases "is_link x")
  case True
  then show ?thesis using assms
    by (cases x) (auto intro: graph_inv_link_always graph_inv_link_cond)
next
  case False
  from graph_inv_extends [OF assms(1) exec_extends [OF assms(3) False]] show ?thesis .
qed

lemma exec_predecessors_linked:
  assumes "predecessors_linked h" and "exec x h = Some h'"
  shows "predecessors_linked h'"
proof (cases "is_link x")
  case True
  then show ?thesis using assms
    by (cases x) (auto intro: predecessors_linked_link_always predecessors_linked_link_cond)
next
  case False
  from predecessors_linked_extends [OF assms(1) exec_extends [OF assms(2) False]]
  show ?thesis .
qed

lemma links_once_prefix: "links_once (xs @ ys) h \<Longrightarrow> links_once xs h"
  by (induction xs arbitrary: h) (auto split: option.splits)

lemma run_graph_inv:
  "graph_inv h0 \<Longrightarrow> links_once ops h0 \<Longrightarrow> run ops h0 = Some h \<Longrightarrow> graph_inv h"
proof (induction ops arbitrary: h0)
  case Nil
  then show ?case by simp
next
  case (Cons x xs)
  from Cons.prems(3) obtain h1 where h1: "exec x h0 = Some h1" and r: "run xs h1 = Some h"
    by (auto split: option.splits)
  from Cons.prems(2) h1 have "first_link x h0" "links_once xs h1" by auto
  with Cons.IH [OF exec_graph_inv [OF Cons.prems(1) _ h1]] r show ?case by blast
qed

lemma run_predecessors_linked:
  "predecessors_linked h0 \<Longrightarrow> run ops h0 = Some h \<Longrightarrow> predecessors_linked h"
proof (induction ops arbitrary: h0)
  case Nil
  then show ?case by simp
next
  case (Cons x xs)
  from Cons.prems(2) obtain h1 where h1: "exec x h0 = Some h1" and r: "run xs h1 = Some h"
    by (auto split: option.splits)
  from Cons.IH [OF exec_predecessors_linked [OF Cons.prems(1) h1] r] show ?case .
qed

lemma is_Block_Addr: "is_Block h p \<Longrightarrow> \<exists>a. p = Addr a \<and> a \<in> set (blocks h)"
  by (cases p) (auto simp: blocks_iff is_Block_iff)

lemma graph_inv_edges_inverse:
  assumes "graph_inv h"
  shows "edges_inverse h"
proof -
  note I = graph_invD [OF assms]
  have "set (predecessors_of h t) \<subseteq> Addr ` set (blocks h)" if "t \<in> set (blocks h)" for t
  proof
    fix p assume p: "p \<in> set (predecessors_of h t)"
    from that obtain bt where bt: "get_Block h (Addr t) = Some bt"
      by (auto simp: blocks_iff is_Block_iff)
    with p I(3) [OF bt] have "is_Block h p" by (simp add: predecessors_of_def)
    then show "p \<in> Addr ` set (blocks h)" by (auto dest: is_Block_Addr)
  qed
  moreover have "count_list (predecessors_of h t) (Addr b) = count_list (targets h b) (Addr t)"
    if "t \<in> set (blocks h)" "b \<in> set (blocks h)" for t b
  proof -
    from that obtain bt bb where "get_Block h (Addr t) = Some bt" "get_Block h (Addr b) = Some bb"
      by (auto simp: blocks_iff is_Block_iff)
    with I(4) [OF this] show ?thesis by (simp add: predecessors_of_def targets_def)
  qed
  ultimately show ?thesis unfolding edges_inverse_def by blast
qed

text \<open>The predecessors after an operation, for the three kinds of operation.\<close>

lemma extends_predecessors_of:
  assumes "extends h h'"
  shows "predecessors_of h' t = predecessors_of h t"
proof (cases "get_Block h' (Addr t)")
  case None
  moreover have "get_Block h (Addr t) = None"
  proof (cases "get_Block h (Addr t)")
    case (Some b)
    from extends_old [OF assms Some] None show ?thesis by auto
  qed simp
  ultimately show ?thesis by (simp add: predecessors_of_def)
next
  case (Some b')
  from assms Some show ?thesis
    by (cases rule: extends_cases) (simp_all add: predecessors_of_def Some)
qed

lemma link_always_predecessors_of:
  assumes "link_always h this next = Some h'"
  shows "predecessors_of h' t = predecessors_of h t @ (if Addr t = next then [Addr this] else [])"
proof -
  from link_always_view [OF assms] obtain bt where
    bt: "get_Block h (Addr this) = Some bt" and nb: "is_Block h next" and
    V: "\<And>q. get_Block h' q =
        map_option (\<lambda>b. b\<lparr>transition := (if q = Addr this then Addr (length h) else transition b),
                          predecessors := predecessors b @ (if q = next then [Addr this] else [])\<rparr>)
          (get_Block h q)"
    by blast
  show ?thesis using nb
    by (cases "get_Block h (Addr t)") (auto simp: predecessors_of_def V is_Block_iff)
qed

lemma link_cond_predecessors_of:
  assumes "link_cond h this cond = Some h'" and "deref h cond = Some (JumpCond y n c)"
  shows "predecessors_of h' t = predecessors_of h t @ (if Addr t = y then [Addr this] else [])
           @ (if Addr t = n then [Addr this] else [])"
proof -
  from link_cond_view [OF assms(1)] assms(2) obtain bt where
    bt: "get_Block h (Addr this) = Some bt" and yb: "is_Block h y" and nb: "is_Block h n" and
    V: "\<And>q. get_Block h' q =
        map_option (\<lambda>b. b\<lparr>transition := (if q = Addr this then cond else transition b),
                          predecessors := predecessors b @ (if q = y then [Addr this] else [])
                                             @ (if q = n then [Addr this] else [])\<rparr>)
          (get_Block h q)"
    by auto
  show ?thesis using yb nb
    by (cases "get_Block h (Addr t)") (auto simp: predecessors_of_def V is_Block_iff)
qed

lemma exec_predecessors_grow:
  assumes "exec x h = Some h'"
  shows "\<exists>ys. predecessors_of h' t = predecessors_of h t @ ys"
proof (cases x)
  case (LinkCond b c)
  with assms have l: "link_cond h b c = Some h'" by simp
  from link_cond_view [OF l] obtain y n cc where "deref h c = Some (JumpCond y n cc)" by blast
  from link_cond_predecessors_of [OF l this] show ?thesis by simp
next
  case (LinkAlways b t')
  with assms have "link_always h b t' = Some h'" by simp
  from link_always_predecessors_of [OF this] show ?thesis by simp
qed (use assms extends_predecessors_of [OF exec_extends [OF assms]] in simp_all)

lemma link_always_defined:
  assumes "get_Block h (Addr b) = Some bb" and "is_Block h (Addr t)"
  shows "\<exists>h'. link_always h b (Addr t) = Some h'"
proof -
  let ?h1 = "snd (alloc h (JumpAlways (Addr t)))"
  have "get_Block ?h1 (Addr b) = Some bb"
    using assms(1) by (auto simp: get_Block_alloc get_Block_fresh)
  from update_Block_defined [OF this] obtain h2 where
    h2: "update_Block ?h1 (Addr b) (\<lambda>b. b\<lparr>transition := Addr (length h)\<rparr>) = Some h2" by blast
  from assms(2) obtain bt where "get_Block h (Addr t) = Some bt" by (auto simp: is_Block_iff)
  then have "get_Block ?h1 (Addr t) = Some bt"
    by (auto simp: get_Block_alloc get_Block_fresh)
  with update_Block_view [OF h2] obtain b2 where "get_Block h2 (Addr t) = Some b2"
    by (cases "t = b") auto
  from update_Block_defined [OF this] obtain h3 where
    "update_Block h2 (Addr t) (\<lambda>x. x\<lparr>predecessors := predecessors x @ [Addr b]\<rparr>) = Some h3"
    by blast
  with h2 show ?thesis
    by (simp add: link_always_def new_JumpAlways_def alloc_def set_transition_def
        push_predecessor_def)
qed

lemma link_cond_defined:
  assumes "get_Block h (Addr b) = Some bb" and "deref h cond = Some (JumpCond (Addr y) (Addr n) c)"
    and "is_Block h (Addr y)" and "is_Block h (Addr n)"
  shows "\<exists>h'. link_cond h b cond = Some h'"
proof -
  from update_Block_defined [OF assms(1)] obtain h1 where
    h1: "update_Block h (Addr b) (\<lambda>b. b\<lparr>transition := cond\<rparr>) = Some h1" by blast
  from update_Block_view [OF h1] have
    g1: "\<And>q. get_Block h1 q = (if q = Addr b then Some (bb\<lparr>transition := cond\<rparr>) else get_Block h q)"
    and y1: "\<And>c. JumpCond_yes h1 c = JumpCond_yes h c"
    and n1: "\<And>c. JumpCond_no h1 c = JumpCond_no h c"
    using assms(1) by auto
  have y: "JumpCond_yes h1 cond = Some (Addr y)"
    unfolding y1 by (simp add: JumpCond_yes_def assms(2))
  from assms(3) obtain b_y where "get_Block h1 (Addr y) = Some b_y"
    by (cases "y = b") (auto simp: is_Block_iff g1)
  from update_Block_defined [OF this] obtain h2 where
    h2: "update_Block h1 (Addr y) (\<lambda>x. x\<lparr>predecessors := predecessors x @ [Addr b]\<rparr>) = Some h2"
    by blast
  from update_Block_view [OF h2] obtain b_y' where
    g2: "\<And>q. get_Block h2 q = (if q = Addr y then Some b_y' else get_Block h1 q)"
    and n2: "\<And>c. JumpCond_no h2 c = JumpCond_no h1 c"
    by auto
  have n: "JumpCond_no h2 cond = Some (Addr n)"
    unfolding n2 n1 by (simp add: JumpCond_no_def assms(2))
  from assms(4) obtain b_n where "get_Block h2 (Addr n) = Some b_n"
    by (cases "n = y"; cases "n = b") (auto simp: is_Block_iff g2 g1)
  from update_Block_defined [OF this] obtain h3 where
    "update_Block h2 (Addr n) (\<lambda>x. x\<lparr>predecessors := predecessors x @ [Addr b]\<rparr>) = Some h3"
    by blast
  with h1 y h2 n show ?thesis
    by (simp add: link_cond_def set_transition_def push_predecessor_def)
qed

lemma unlinked_not_predecessor:
  assumes "predecessors_linked h" and "unlinked h b"
  shows "Addr b \<notin> set (predecessors_of h t)"
proof
  assume a: "Addr b \<in> set (predecessors_of h t)"
  then obtain bt where "get_Block h (Addr t) = Some bt" "Addr b \<in> set (predecessors bt)"
    by (cases "get_Block h (Addr t)") (auto simp: predecessors_of_def)
  with assms(1) obtain bb where "get_Block h (Addr b) = Some bb" "transition bb \<noteq> NULL"
    unfolding predecessors_linked_def by blast
  with assms(2) show False by (simp add: unlinked_def getTransition_def)
qed

lemma deref_alloc_new:
  "deref (snd (alloc h obj)) (Addr (fst (alloc h obj))) = Some obj"
  by (simp add: deref_def alloc_def)

section \<open>Construction\<close>

text \<open>
  C9. For every name, creating a block with that name gives an empty, unlinked block: its
  name is the given string, it has no statements, its transition is null and it has no
  predecessors.
\<close>

theorem new_Block_empty_unlinked:
  "get_Block (snd (new_Block h nm)) (Addr (fst (new_Block h nm)))
     = Some \<lparr>transition = NULL, name = nm, predecessors = [], contents = []\<rparr>"
  by (simp add: new_Block_def get_Block_def deref_alloc_new Block_init_def)

lemma toString_examples:
  "toString 0 = ''0'' \<and> toString 42 = ''42'' \<and> toString 65535 = ''65535''"
  by (simp add: toString_def decimal.simps digit_char_def)

text \<open>
  C10. For every function id and return kind, the constructed \<open>FunctionRecord\<close> holds that id
  and return kind, an empty list of parameter ids and an empty pool, and its entry block
  exists already: named by the decimal rendering of the id, without statements, without
  transition and without predecessors.
\<close>

theorem new_FunctionRecord_initial:
  "map_option (\<lambda>f. (id' f, parametersIds f, pool f, returnType f))
      (get_FunctionRecord (snd (new_FunctionRecord h i rt)) (Addr (fst (new_FunctionRecord h i rt))))
     = Some (i, [], [], rt) \<and>
   Option.bind
      (get_FunctionRecord (snd (new_FunctionRecord h i rt)) (Addr (fst (new_FunctionRecord h i rt))))
      (\<lambda>f. get_Block (snd (new_FunctionRecord h i rt)) (Addr (entry f)))
     = Some \<lparr>transition = NULL, name = toString i, predecessors = [], contents = []\<rparr> \<and>
   toString i = decimal (unat i)"
  by (simp add: new_FunctionRecord_def new_Block_def alloc_def get_FunctionRecord_def
      get_Block_def deref_def Block_init_def toString_def nth_append)

text \<open>
  C5, as the claim states it, fails: no constructor of the header looks at its operands.
  Building a \<open>BinOp\<close> whose right operand is null, beside a variable at address 0, returns
  the address of a new node, and the node is there with the null operand in it.
\<close>

theorem new_BinOp_null_operand_counterexample:
  "new_BinOp [Variable 1] (Addr 0) NULL BO_LT = (1, [Variable 1, BinOp (Addr 0) NULL BO_LT]) \<and>
   deref (snd (new_BinOp [Variable 1] (Addr 0) NULL BO_LT)) (Addr 1)
     = Some (BinOp (Addr 0) NULL BO_LT)"
  by (simp add: new_BinOp_def alloc_def deref_def)

text \<open>
  C5, amended. For every node-construction call that takes operand references, whatever
  they are, null ones included, construction returns a new node whose operand fields hold
  the references exactly as they were given.
\<close>

theorem constructors_store_operands_as_given:
  "deref (snd (new_BinOp h l r bt)) (Addr (fst (new_BinOp h l r bt))) = Some (BinOp l r bt) \<and>
   deref (snd (new_UnOp h e ut)) (Addr (fst (new_UnOp h e ut))) = Some (UnOp e ut) \<and>
   deref (snd (new_Assignment h x e)) (Addr (fst (new_Assignment h x e))) = Some (Assignment x e) \<and>
   deref (snd (new_Return h a)) (Addr (fst (new_Return h a))) = Some (Return a) \<and>
   deref (snd (new_Print h a)) (Addr (fst (new_Print h a))) = Some (Print a) \<and>
   deref (snd (new_Call h i ps)) (Addr (fst (new_Call h i ps))) = Some (Call ps i) \<and>
   deref (snd (new_JumpAlways h d)) (Addr (fst (new_JumpAlways h d))) = Some (JumpAlways d) \<and>
   deref (snd (new_JumpCond h y n c)) (Addr (fst (new_JumpCond h y n c))) = Some (JumpCond y n c)"
  by (simp add: new_BinOp_def new_UnOp_def new_Assignment_def new_Return_def new_Print_def
      new_Call_def new_JumpAlways_def new_JumpCond_def deref_alloc_new)

section \<open>Dispatch\<close>

text \<open>
  C6. For every node, whatever its class, and every visitor, \<open>visit\<close> calls the visitor's
  handler for exactly that class: the visitor's state afterwards is the one that handler
  leaves, and a visitor that records the tag of each handler called records the tag of
  the node's class and nothing else.
\<close>

theorem visit_routes_to_own_handler:
  "(\<exists>f. overload v (getType x) = Some f \<and> snd (visit x this v s) = snd (f this s)) \<and>
   snd (visit x this tracer log) = log @ [getType x]"
  by (cases x) (simp_all add: visit_body_def tracer_def split: prod.splits)

text \<open>
  C7 fails on the code: the body of \<open>visit\<close> calls the handler but has no \<open>return\<close>. For the
  integer constant 5 at address 0 and the identity visitor the handler produces the node
  itself, and \<open>visit\<close> hands back no value.
\<close>

theorem visit_discards_handler_result:
  "fst (visit (Int' 5) 0 identity_visitor ()) = FlowsOffEnd \<and>
   fst (visit_Int identity_visitor 0 ()) = Addr 0"
  by (simp add: visit_body_def identity_visitor_def)

text \<open>
  C8. For a node of each of the fifteen classes: the tag query returns the tag of the
  class, the test for that class is true and the cast to it returns the node itself, and
  for every other tag the test is false and the cast returns null.
\<close>

theorem tag_test_cast_consistent:
  "(getType (BinOp l r bt) = IT_BinOp \<and> is_ir IT_BinOp (BinOp l r bt) \<and>
    as_ir IT_BinOp this (BinOp l r bt) = Addr this \<and>
    (\<forall>j. j \<noteq> IT_BinOp \<longrightarrow> \<not> is_ir j (BinOp l r bt) \<and> as_ir j this (BinOp l r bt) = NULL)) \<and>
   (getType (UnOp e ut) = IT_UnOp \<and> is_ir IT_UnOp (UnOp e ut) \<and>
    as_ir IT_UnOp this (UnOp e ut) = Addr this \<and>
    (\<forall>j. j \<noteq> IT_UnOp \<longrightarrow> \<not> is_ir j (UnOp e ut) \<and> as_ir j this (UnOp e ut) = NULL)) \<and>
   (getType (Variable i) = IT_Variable \<and> is_ir IT_Variable (Variable i) \<and>
    as_ir IT_Variable this (Variable i) = Addr this \<and>
    (\<forall>j. j \<noteq> IT_Variable \<longrightarrow> \<not> is_ir j (Variable i) \<and> as_ir j this (Variable i) = NULL)) \<and>
   (getType (Return ra) = IT_Return \<and> is_ir IT_Return (Return ra) \<and>
    as_ir IT_Return this (Return ra) = Addr this \<and>
    (\<forall>j. j \<noteq> IT_Return \<longrightarrow> \<not> is_ir j (Return ra) \<and> as_ir j this (Return ra) = NULL)) \<and>
   (getType (Phi vs) = IT_Phi \<and> is_ir IT_Phi (Phi vs) \<and>
    as_ir IT_Phi this (Phi vs) = Addr this \<and>
    (\<forall>j. j \<noteq> IT_Phi \<longrightarrow> \<not> is_ir j (Phi vs) \<and> as_ir j this (Phi vs) = NULL)) \<and>
   (getType (Int' iv) = IT_Int \<and> is_ir IT_Int (Int' iv) \<and>
    as_ir IT_Int this (Int' iv) = Addr this \<and>
    (\<forall>j. j \<noteq> IT_Int \<longrightarrow> \<not> is_ir j (Int' iv) \<and> as_ir j this (Int' iv) = NULL)) \<and>
   (getType (Double dv) = IT_Double \<and> is_ir IT_Double (Double dv) \<and>
    as_ir IT_Double this (Double dv) = Addr this \<and>
    (\<forall>j. j \<noteq> IT_Double \<longrightarrow> \<not> is_ir j (Double dv) \<and> as_ir j this (Double dv) = NULL)) \<and>
   (getType (Ptr pv pooled) = IT_Ptr \<and> is_ir IT_Ptr (Ptr pv pooled) \<and>
    as_ir IT_Ptr this (Ptr pv pooled) = Addr this \<and>
    (\<forall>j. j \<noteq> IT_Ptr \<longrightarrow> \<not> is_ir j (Ptr pv pooled) \<and> as_ir j this (Ptr pv pooled) = NULL)) \<and>
   (getType (Block b) = IT_Block \<and> is_ir IT_Block (Block b) \<and>
    as_ir IT_Block this (Block b) = Addr this \<and>
    (\<forall>j. j \<noteq> IT_Block \<longrightarrow> \<not> is_ir j (Block b) \<and> as_ir j this (Block b) = NULL)) \<and>
   (getType (Assignment av ae) = IT_Assignment \<and> is_ir IT_Assignment (Assignment av ae) \<and>
    as_ir IT_Assignment this (Assignment av ae) = Addr this \<and>
    (\<forall>j. j \<noteq> IT_Assignment \<longrightarrow> \<not> is_ir j (Assignment av ae) \<and> as_ir j this (Assignment av ae) = NULL)) \<and>
   (getType (Call cps ci) = IT_Call \<and> is_ir IT_Call (Call cps ci) \<and>
    as_ir IT_Call this (Call cps ci) = Addr this \<and>
    (\<forall>j. j \<noteq> IT_Call \<longrightarrow> \<not> is_ir j (Call cps ci) \<and> as_ir j this (Call cps ci) = NULL)) \<and>
   (getType (Print pa) = IT_Print \<and> is_ir IT_Print (Print pa) \<and>
    as_ir IT_Print this (Print pa) = Addr this \<and>
    (\<forall>j. j \<noteq> IT_Print \<longrightarrow> \<not> is_ir j (Print pa) \<and> as_ir j this (Print pa) = NULL)) \<and>
   (getType (FunctionRecord f) = IT_FunctionRecord \<and> is_ir IT_FunctionRecord (FunctionRecord f) \<and>
    as_ir IT_FunctionRecord this (FunctionRecord f) = Addr this \<and>
    (\<forall>j. j \<noteq> IT_FunctionRecord \<longrightarrow> \<not> is_ir j (FunctionRecord f) \<and> as_ir j this (FunctionRecord f) = NULL)) \<and>
   (getType (JumpAlways d) = IT_JumpAlways \<and> is_ir IT_JumpAlways (JumpAlways d) \<and>
    as_ir IT_JumpAlways this (JumpAlways d) = Addr this \<and>
    (\<forall>j. j \<noteq> IT_JumpAlways \<longrightarrow> \<not> is_ir j (JumpAlways d) \<and> as_ir j this (JumpAlways d) = NULL)) \<and>
   (getType (JumpCond y n c) = IT_JumpCond \<and> is_ir IT_JumpCond (JumpCond y n c) \<and>
    as_ir IT_JumpCond this (JumpCond y n c) = Addr this \<and>
    (\<forall>j. j \<noteq> IT_JumpCond \<longrightarrow> \<not> is_ir j (JumpCond y n c) \<and> as_ir j this (JumpCond y n c) = NULL))"
  by (intro conjI allI impI; (simp add: IrElement_is_def IrElement_as_def split: IrType.splits)?)

theorem tag_test_cast_consistent_witness:
  "IT_UnOp \<noteq> IT_BinOp \<and> getType (BinOp NULL NULL BO_ADD) = IT_BinOp \<and>
   is_ir IT_BinOp (BinOp NULL NULL BO_ADD) \<and> as_ir IT_BinOp 0 (BinOp NULL NULL BO_ADD) = Addr 0 \<and>
   \<not> is_ir IT_UnOp (BinOp NULL NULL BO_ADD) \<and> as_ir IT_UnOp 0 (BinOp NULL NULL BO_ADD) = NULL"
  using tag_test_cast_consistent [of NULL NULL BO_ADD 0]
  by (simp add: IrElement_is_def IrElement_as_def)

section \<open>Linking\<close>

lemma link_always_getTransition:
  assumes "link_always h b next = Some h'"
  shows "getTransition h' b = Some (Addr (length h))"
    and "deref h' (Addr (length h)) = Some (JumpAlways next)"
proof -
  from link_always_view [OF assms] obtain bt where
    bt: "get_Block h (Addr b) = Some bt" and
    V: "\<And>q. get_Block h' q =
        map_option (\<lambda>x. x\<lparr>transition := (if q = Addr b then Addr (length h) else transition x),
                          predecessors := predecessors x @ (if q = next then [Addr b] else [])\<rparr>)
          (get_Block h q)" and
    VN: "deref h' (Addr (length h)) = Some (JumpAlways next)"
    by blast
  show "getTransition h' b = Some (Addr (length h))"
    by (simp add: getTransition_def V bt)
  show "deref h' (Addr (length h)) = Some (JumpAlways next)" by (rule VN)
qed

lemma link_cond_getTransition:
  assumes "link_cond h b cond = Some h'"
  shows "getTransition h' b = Some cond" and "deref h' cond = deref h cond"
proof -
  from link_cond_view [OF assms] obtain bt y n c where
    bt: "get_Block h (Addr b) = Some bt" and cj: "deref h cond = Some (JumpCond y n c)" and
    V: "\<And>q. get_Block h' q =
        map_option (\<lambda>x. x\<lparr>transition := (if q = Addr b then cond else transition x),
                          predecessors := predecessors x @ (if q = y then [Addr b] else [])
                                             @ (if q = n then [Addr b] else [])\<rparr>)
          (get_Block h q)" and
    D: "deref h' cond = Some (JumpCond y n c)"
    by blast
  show "getTransition h' b = Some cond"
    by (simp add: getTransition_def V bt)
  show "deref h' cond = deref h cond" by (simp add: D cj)
qed

lemma unlinked_Block: "unlinked h b \<Longrightarrow> \<exists>bb. get_Block h (Addr b) = Some bb \<and> transition bb = NULL"
  by (auto simp: unlinked_def getTransition_def)

text \<open>
  C1, as the claim states it, fails: \<open>link\<close> does not look at the transition it
  overwrites. Three blocks are created and block 0 is linked to block 1 and then to block
  2. Block 0 stays among the predecessors of block 1, which its transition no longer
  targets.
\<close>

theorem relinking_breaks_inverse_counterexample:
  "map_option (\<lambda>h. (predecessors_of h 1, targets h 0, edges_inverse h))
     (run [NewBlock ''a'', NewBlock ''b'', NewBlock ''c'',
           LinkAlways 0 (Addr 1), LinkAlways 0 (Addr 2)] [])
   = Some ([Addr 0], [Addr 2], False)"
  by code_simp

lemma run_predecessors_grow:
  "run ops g = Some g' \<Longrightarrow> \<exists>ys. predecessors_of g' t = predecessors_of g t @ ys"
proof (induction ops arbitrary: g)
  case Nil
  then show ?case by simp
next
  case (Cons x xs)
  from Cons.prems obtain g1 where g1: "exec x g = Some g1" and r: "run xs g1 = Some g'"
    by (auto split: option.splits)
  from exec_predecessors_grow [OF g1] obtain ys where
    "predecessors_of g1 t = predecessors_of g t @ ys" by blast
  moreover from Cons.IH [OF r] obtain zs where
    "predecessors_of g' t = predecessors_of g1 t @ zs" by blast
  ultimately show ?case by simp
qed

text \<open>
  C1, amended. In every sequence of construction and linking operations that links no
  block a second time, at every point of the sequence the predecessor vectors are the
  exact inverse of the transition edges: they hold blocks only, and block \<open>b\<close> occurs in
  the predecessors of block \<open>t\<close> exactly as many times as the transition of \<open>b\<close> targets
  \<open>t\<close>. In any sequence, relinking or not, and from any store: an operation only appends
  to predecessor vectors, it leaves them all as they are unless it is a link, and so does
  a whole sequence never remove an entry.
\<close>

theorem predecessors_inverse_when_linked_once:
  "(links_once (pre @ post) [] \<longrightarrow> run pre [] = Some h \<longrightarrow> edges_inverse h) \<and>
   (\<forall>x g g' t. exec x g = Some g' \<longrightarrow>
      (\<exists>ys. predecessors_of g' t = predecessors_of g t @ ys) \<and>
      (\<not> is_link x \<longrightarrow> predecessors_of g' t = predecessors_of g t)) \<and>
   (\<forall>ops g g' t. run ops g = Some g' \<longrightarrow>
      (\<exists>ys. predecessors_of g' t = predecessors_of g t @ ys))"
proof (intro conjI impI allI)
  assume l: "links_once (pre @ post) []" and r: "run pre [] = Some h"
  from l have "links_once pre []" by (rule links_once_prefix)
  from run_graph_inv [OF graph_inv_empty this r] show "edges_inverse h"
    by (rule graph_inv_edges_inverse)
next
  fix x g g' t assume "exec x g = Some g'"
  then show "\<exists>ys. predecessors_of g' t = predecessors_of g t @ ys"
    by (rule exec_predecessors_grow)
next
  fix x g g' t assume "exec x g = Some g'" and "\<not> is_link x"
  from exec_extends [OF this] show "predecessors_of g' t = predecessors_of g t"
    by (rule extends_predecessors_of)
next
  fix ops g g' t assume "run ops g = Some g'"
  then show "\<exists>ys. predecessors_of g' t = predecessors_of g t @ ys"
    by (rule run_predecessors_grow)
qed

text \<open>The hypotheses of the amended C1 hold for Scenario B: block \<open>C\<close> is linked by a
  conditional jump to \<open>Y\<close> and \<open>N\<close>, and later \<open>Y\<close> to \<open>N\<close>. Those on single operations
  hold at the store that the relinking sequence above leaves, which no sequence without a
  relink reaches: a third link of block 0 and the creation of a block.\<close>

theorem predecessors_inverse_when_linked_once_witness:
  "links_once ([NewBlock ''C'', NewBlock ''Y'', NewBlock ''N'', NewVariable 1,
                NewJumpCond (Addr 1) (Addr 2) (Addr 3), LinkCond 0 (Addr 4)]
               @ [LinkAlways 1 (Addr 2)]) [] \<and>
   map_option (\<lambda>h. (edges_inverse h, predecessors_of h 1, predecessors_of h 2, targets h 0))
     (run [NewBlock ''C'', NewBlock ''Y'', NewBlock ''N'', NewVariable 1,
           NewJumpCond (Addr 1) (Addr 2) (Addr 3), LinkCond 0 (Addr 4)] [])
     = Some (True, [Addr 0], [Addr 0], [Addr 1, Addr 2]) \<and>
   \<not> links_once [NewBlock ''a'', NewBlock ''b'', NewBlock ''c'',
                  LinkAlways 0 (Addr 1), LinkAlways 0 (Addr 2)] [] \<and>
   (case run [NewBlock ''a'', NewBlock ''b'', NewBlock ''c'',
              LinkAlways 0 (Addr 1), LinkAlways 0 (Addr 2)] [] of
      None \<Rightarrow> False
    | Some g \<Rightarrow>
        predecessors_of g 1 = [Addr 0] \<and>
        (\<exists>g' ys. exec (LinkAlways 0 (Addr 1)) g = Some g' \<and>
           predecessors_of g' 1 = [Addr 0] @ ys) \<and>
        (\<exists>g'. exec (NewBlock ''d'') g = Some g' \<and> \<not> is_link (NewBlock ''d'') \<and>
           predecessors_of g' 1 = [Addr 0]) \<and>
        (\<exists>g' ys. run [NewBlock ''d'', LinkAlways 0 (Addr 1)] g = Some g' \<and>
           predecessors_of g' 1 = [Addr 0] @ ys))"
proof -
  let ?pre = "[NewBlock ''C'', NewBlock ''Y'', NewBlock ''N'', NewVariable 1,
               NewJumpCond (Addr 1) (Addr 2) (Addr 3), LinkCond 0 (Addr 4)]"
  let ?re = "[NewBlock ''a'', NewBlock ''b'', NewBlock ''c'',
              LinkAlways 0 (Addr 1), LinkAlways 0 (Addr 2)]"
  note T = predecessors_inverse_when_linked_once
  have l: "links_once (?pre @ [LinkAlways 1 (Addr 2)]) []" by code_simp
  have "map_option (\<lambda>h. (predecessors_of h 1, predecessors_of h 2, targets h 0)) (run ?pre [])
          = Some ([Addr 0], [Addr 0], [Addr 1, Addr 2])" by code_simp
  then obtain h where r: "run ?pre [] = Some h" and
    v: "predecessors_of h 1 = [Addr 0]" "predecessors_of h 2 = [Addr 0]"
       "targets h 0 = [Addr 1, Addr 2]"
    by (auto simp del: run.simps)
  from T [of ?pre "[LinkAlways 1 (Addr 2)]" h] l r have e: "edges_inverse h" by blast
  have n: "\<not> links_once ?re []" by code_simp
  have "map_option
          (\<lambda>g. (predecessors_of g 1, exec (LinkAlways 0 (Addr 1)) g \<noteq> None,
                 exec (NewBlock ''d'') g \<noteq> None,
                 run [NewBlock ''d'', LinkAlways 0 (Addr 1)] g \<noteq> None))
          (run ?re []) = Some ([Addr 0], True, True, True)"
    by code_simp
  then obtain g g1 g2 g3 where rg: "run ?re [] = Some g" and
    p: "predecessors_of g 1 = [Addr 0]" and
    x1: "exec (LinkAlways 0 (Addr 1)) g = Some g1" and
    x2: "exec (NewBlock ''d'') g = Some g2" and
    x3: "run [NewBlock ''d'', LinkAlways 0 (Addr 1)] g = Some g3"
    by (auto simp del: run.simps exec.simps)
  have k: "\<not> is_link (NewBlock ''d'')" by simp
  from T [of ?pre "[]" h] x1 obtain ys where "predecessors_of g1 1 = predecessors_of g 1 @ ys"
    by blast
  with x1 p have A: "\<exists>g' ys. exec (LinkAlways 0 (Addr 1)) g = Some g' \<and>
           predecessors_of g' 1 = [Addr 0] @ ys"
    by (auto simp del: exec.simps)
  from T [of ?pre "[]" h] x2 k have "predecessors_of g2 1 = predecessors_of g 1"
    by blast
  with x2 p k have B: "\<exists>g'. exec (NewBlock ''d'') g = Some g' \<and> \<not> is_link (NewBlock ''d'') \<and>
           predecessors_of g' 1 = [Addr 0]"
    by (auto simp del: exec.simps)
  from T [of ?pre "[]" h] x3 obtain zs where "predecessors_of g3 1 = predecessors_of g 1 @ zs"
    by blast
  with x3 p have C: "\<exists>g' ys. run [NewBlock ''d'', LinkAlways 0 (Addr 1)] g = Some g' \<and>
           predecessors_of g' 1 = [Addr 0] @ ys"
    by (auto simp del: run.simps)
  from l r v e n rg p A B C show ?thesis
    by (simp del: run.simps links_once.simps exec.simps)
qed

text \<open>
  C2, as the claim states it, fails when the two targets are the same block: the unlinked
  block 0 is linked by a conditional jump whose yes and no target are both block 1, and
  then block 0 is twice among the predecessors of block 1.
\<close>

theorem link_cond_same_target_counterexample:
  "map_option
     (\<lambda>h. (unlinked h 0, is_Block h (Addr 1), deref h (Addr 3),
            map_option (\<lambda>h'. (predecessors_of h' 1, count_list (predecessors_of h' 1) (Addr 0)))
              (link_cond h 0 (Addr 3))))
     (run [NewBlock ''B'', NewBlock ''Y'', NewVariable 1,
           NewJumpCond (Addr 1) (Addr 1) (Addr 2)] [])
   = Some (True, True, Some (JumpCond (Addr 1) (Addr 1) (Addr 2)),
           Some ([Addr 0, Addr 0], 2))"
  by code_simp

text \<open>
  C2, amended. In a store built by any sequence of construction and linking operations,
  linking an unlinked block \<open>b\<close> by a conditional jump to the blocks \<open>y\<close> and \<open>n\<close> is
  defined, makes that jump the transition of \<open>b\<close>, and afterwards \<open>b\<close> occurs exactly once
  in the predecessors of \<open>y\<close> and exactly once in those of \<open>n\<close> when \<open>y\<close> and \<open>n\<close> differ,
  exactly twice in those of the common target when they are the same, and in the
  predecessors of no other block, which are unchanged.
\<close>

theorem link_cond_first_link:
  assumes "run ops [] = Some h" and "unlinked h b"
    and "deref h cond = Some (JumpCond (Addr y) (Addr n) c)"
    and "is_Block h (Addr y)" and "is_Block h (Addr n)"
  shows "\<exists>h'. link_cond h b cond = Some h' \<and>
           getTransition h' b = Some cond \<and>
           deref h' cond = Some (JumpCond (Addr y) (Addr n) c) \<and>
           count_list (predecessors_of h' y) (Addr b) = (if y = n then 2 else 1) \<and>
           count_list (predecessors_of h' n) (Addr b) = (if y = n then 2 else 1) \<and>
           (\<forall>t. t \<noteq> y \<longrightarrow> t \<noteq> n \<longrightarrow>
              predecessors_of h' t = predecessors_of h t \<and>
              count_list (predecessors_of h' t) (Addr b) = 0)"
proof -
  from unlinked_Block [OF assms(2)] obtain bb where bb: "get_Block h (Addr b) = Some bb"
    by blast
  from link_cond_defined [OF bb assms(3,4,5)] obtain h' where l: "link_cond h b cond = Some h'"
    by blast
  have pl: "predecessors_linked h"
    using run_predecessors_linked [OF predecessors_linked_empty assms(1)] .
  have z: "count_list (predecessors_of h t) (Addr b) = 0" for t
    using unlinked_not_predecessor [OF pl assms(2)] by (simp add: count_list_0_iff)
  note P = link_cond_predecessors_of [OF l assms(3)]
  have "getTransition h' b = Some cond"
    by (rule link_cond_getTransition(1) [OF l])
  moreover have "deref h' cond = Some (JumpCond (Addr y) (Addr n) c)"
    using link_cond_getTransition(2) [OF l] assms(3) by simp
  moreover have "count_list (predecessors_of h' y) (Addr b) = (if y = n then 2 else 1)"
    by (simp add: P z)
  moreover have "count_list (predecessors_of h' n) (Addr b) = (if y = n then 2 else 1)"
    by (simp add: P z)
  moreover have "predecessors_of h' t = predecessors_of h t \<and>
      count_list (predecessors_of h' t) (Addr b) = 0" if "t \<noteq> y" "t \<noteq> n" for t
    using that by (simp add: P z)
  ultimately show ?thesis using l by blast
qed

text \<open>The hypotheses of the amended C2 hold in Scenario B, before \<open>C\<close> is linked.\<close>

theorem link_cond_first_link_witness:
  "case run [NewBlock ''C'', NewBlock ''Y'', NewBlock ''N'', NewVariable 1,
             NewJumpCond (Addr 1) (Addr 2) (Addr 3)] [] of
     None \<Rightarrow> False
   | Some h \<Rightarrow>
       unlinked h 0 \<and> deref h (Addr 4) = Some (JumpCond (Addr 1) (Addr 2) (Addr 3)) \<and>
       is_Block h (Addr 1) \<and> is_Block h (Addr 2) \<and>
       (\<exists>h'. link_cond h 0 (Addr 4) = Some h' \<and> getTransition h' 0 = Some (Addr 4) \<and>
          count_list (predecessors_of h' 1) (Addr 0) = 1 \<and>
          count_list (predecessors_of h' 2) (Addr 0) = 1 \<and>
          count_list (predecessors_of h' 0) (Addr 0) = 0)"
proof -
  let ?ops = "[NewBlock ''C'', NewBlock ''Y'', NewBlock ''N'', NewVariable 1,
               NewJumpCond (Addr 1) (Addr 2) (Addr 3)]"
  have "map_option
     (\<lambda>h. (unlinked h 0, deref h (Addr 4), is_Block h (Addr 1), is_Block h (Addr 2)))
     (run ?ops []) = Some (True, Some (JumpCond (Addr 1) (Addr 2) (Addr 3)), True, True)"
    by code_simp
  then obtain h where r: "run ?ops [] = Some h" and
    u: "unlinked h 0" and d: "deref h (Addr 4) = Some (JumpCond (Addr 1) (Addr 2) (Addr 3))" and
    b: "is_Block h (Addr 1)" "is_Block h (Addr 2)"
    by (auto simp del: run.simps)
  from link_cond_first_link [OF r u d b]
  have "\<exists>h'. link_cond h 0 (Addr 4) = Some h' \<and> getTransition h' 0 = Some (Addr 4) \<and>
          count_list (predecessors_of h' 1) (Addr 0) = 1 \<and>
          count_list (predecessors_of h' 2) (Addr 0) = 1 \<and>
          count_list (predecessors_of h' 0) (Addr 0) = 0"
    by fastforce
  with r u d b show ?thesis by (simp del: run.simps)
qed

lemma entry_scenario:
  "case new_FunctionRecord h0 i rt of (f, h1) \<Rightarrow>
     (case new_Block h1 nm of (r, h2) \<Rightarrow>
        (\<exists>fr h3 j.
           get_FunctionRecord h2 (Addr f) = Some fr \<and>
           link_always h2 (entry fr) (Addr r) = Some h3 \<and>
           predecessors_of h3 (entry fr) = [] \<and>
           predecessors_of h3 r = [Addr (entry fr)] \<and>
           getTransition h3 (entry fr) = Some (Addr j) \<and>
           deref h3 (Addr j) = Some (JumpAlways (Addr r))))"
proof -
  define e where "e = length h0"
  define r where "r = Suc (Suc e)"
  define fr where
    "fr = \<lparr>id' = i, entry = e, parametersIds = [], pool = [], returnType = rt\<rparr>"
  define h1 where "h1 = h0 @ [Block (Block_init (toString i)), FunctionRecord fr]"
  define h2 where "h2 = h1 @ [Block (Block_init nm)]"
  have n1: "new_FunctionRecord h0 i rt = (Suc e, h1)"
    by (simp add: new_FunctionRecord_def new_Block_def alloc_def h1_def fr_def e_def)
  have n2: "new_Block h1 nm = (r, h2)"
    by (simp add: new_Block_def alloc_def h2_def h1_def r_def e_def)
  have f: "get_FunctionRecord h2 (Addr (Suc e)) = Some fr"
    by (simp add: h2_def h1_def e_def get_FunctionRecord_def deref_def nth_append)
  have be: "get_Block h2 (Addr e) = Some (Block_init (toString i))"
    by (simp add: h2_def h1_def e_def get_Block_def deref_def nth_append)
  have br: "get_Block h2 (Addr r) = Some (Block_init nm)"
    by (simp add: h2_def h1_def r_def e_def get_Block_def deref_def nth_append)
  from br have "is_Block h2 (Addr r)" by (simp add: is_Block_iff)
  from link_always_defined [OF be this] obtain h3 where l: "link_always h2 e (Addr r) = Some h3"
    by blast
  note P = link_always_predecessors_of [OF l]
  have "predecessors_of h2 e = []" "predecessors_of h2 r = []"
    by (simp_all add: predecessors_of_def be br Block_init_def)
  then have "predecessors_of h3 e = []" "predecessors_of h3 r = [Addr e]"
    by (simp_all add: P r_def)
  moreover have "entry fr = e" by (simp add: fr_def)
  moreover note link_always_getTransition [OF l] f l
  ultimately show ?thesis by (simp add: n1 n2)
qed

text \<open>
  C3. In a store built by any sequence of construction and linking operations, linking an
  unlinked block \<open>b\<close> unconditionally to a block \<open>t\<close> is defined, makes a \<open>JumpAlways\<close> with
  destination \<open>t\<close> the transition of \<open>b\<close>, and afterwards \<open>b\<close> occurs exactly once in the
  predecessors of \<open>t\<close>. In particular, when the entry block \<open>E\<close> of a new function record
  is linked to a new block \<open>R\<close>, then \<open>E\<close> has no predecessors, the predecessors of \<open>R\<close>
  are \<open>[E]\<close>, and the transition of \<open>E\<close> is a \<open>JumpAlways\<close> to \<open>R\<close>.
\<close>

theorem link_always_first_link:
  "(run ops [] = Some h \<longrightarrow> unlinked h b \<longrightarrow> is_Block h (Addr t) \<longrightarrow>
      (\<exists>h' j. link_always h b (Addr t) = Some h' \<and>
         getTransition h' b = Some (Addr j) \<and> deref h' (Addr j) = Some (JumpAlways (Addr t)) \<and>
         count_list (predecessors_of h' t) (Addr b) = 1)) \<and>
   (case new_FunctionRecord h0 i rt of (f, h1) \<Rightarrow>
      (case new_Block h1 nm of (r, h2) \<Rightarrow>
         (\<exists>fr h3 j.
            get_FunctionRecord h2 (Addr f) = Some fr \<and>
            link_always h2 (entry fr) (Addr r) = Some h3 \<and>
            predecessors_of h3 (entry fr) = [] \<and>
            predecessors_of h3 r = [Addr (entry fr)] \<and>
            getTransition h3 (entry fr) = Some (Addr j) \<and>
            deref h3 (Addr j) = Some (JumpAlways (Addr r)))))"
proof (rule conjI, intro impI)
  assume r: "run ops [] = Some h" and u: "unlinked h b" and t: "is_Block h (Addr t)"
  from unlinked_Block [OF u] obtain bb where bb: "get_Block h (Addr b) = Some bb"
    by blast
  from link_always_defined [OF bb t] obtain h' where l: "link_always h b (Addr t) = Some h'"
    by blast
  have pl: "predecessors_linked h"
    using run_predecessors_linked [OF predecessors_linked_empty r] .
  have "count_list (predecessors_of h t) (Addr b) = 0"
    using unlinked_not_predecessor [OF pl u] by (simp add: count_list_0_iff)
  then have "count_list (predecessors_of h' t) (Addr b) = 1"
    by (simp add: link_always_predecessors_of [OF l])
  with l link_always_getTransition [OF l]
  show "\<exists>h' j. link_always h b (Addr t) = Some h' \<and>
         getTransition h' b = Some (Addr j) \<and> deref h' (Addr j) = Some (JumpAlways (Addr t)) \<and>
         count_list (predecessors_of h' t) (Addr b) = 1"
    by blast
next
  show "case new_FunctionRecord h0 i rt of (f, h1) \<Rightarrow>
      (case new_Block h1 nm of (r, h2) \<Rightarrow>
         (\<exists>fr h3 j.
            get_FunctionRecord h2 (Addr f) = Some fr \<and>
            link_always h2 (entry fr) (Addr r) = Some h3 \<and>
            predecessors_of h3 (entry fr) = [] \<and>
            predecessors_of h3 r = [Addr (entry fr)] \<and>
            getTransition h3 (entry fr) = Some (Addr j) \<and>
            deref h3 (Addr j) = Some (JumpAlways (Addr r))))"
    by (rule entry_scenario)
qed

text \<open>The hypotheses of C3 hold in Scenario A: the entry block of function 1, holding an
  assignment, and a block \<open>R\<close> holding a return.\<close>

theorem link_always_first_link_witness:
  "case run [NewFunctionRecord 1 VT_Int, NewInt 5, NewAssignment 1 (Addr 2),
             PushStatement (Addr 0) (Addr 3), NewBlock ''R'', NewVariable 1,
             NewReturn (Addr 5), PushStatement (Addr 4) (Addr 6)] [] of
     None \<Rightarrow> False
   | Some h \<Rightarrow>
       unlinked h 0 \<and> is_Block h (Addr 4) \<and>
       (\<exists>h' j. link_always h 0 (Addr 4) = Some h' \<and>
          getTransition h' 0 = Some (Addr j) \<and> deref h' (Addr j) = Some (JumpAlways (Addr 4)) \<and>
          count_list (predecessors_of h' 4) (Addr 0) = 1) \<and>
       map_option (\<lambda>h'. (predecessors_of h' 0, predecessors_of h' 4)) (link_always h 0 (Addr 4))
         = Some ([], [Addr 0])"
proof -
  let ?ops = "[NewFunctionRecord 1 VT_Int, NewInt 5, NewAssignment 1 (Addr 2),
             PushStatement (Addr 0) (Addr 3), NewBlock ''R'', NewVariable 1,
             NewReturn (Addr 5), PushStatement (Addr 4) (Addr 6)]"
  have "map_option (\<lambda>h. (unlinked h 0, is_Block h (Addr 4),
          map_option (\<lambda>h'. (predecessors_of h' 0, predecessors_of h' 4))
            (link_always h 0 (Addr 4)))) (run ?ops [])
        = Some (True, True, Some ([], [Addr 0]))"
    by code_simp
  then obtain h where r: "run ?ops [] = Some h" and u: "unlinked h 0" and
    b: "is_Block h (Addr 4)" and
    e: "map_option (\<lambda>h'. (predecessors_of h' 0, predecessors_of h' 4)) (link_always h 0 (Addr 4))
         = Some ([], [Addr 0])"
    by (auto simp del: run.simps)
  from link_always_first_link [of ?ops h 0 4] r u b
  have "\<exists>h' j. link_always h 0 (Addr 4) = Some h' \<and>
          getTransition h' 0 = Some (Addr j) \<and> deref h' (Addr j) = Some (JumpAlways (Addr 4)) \<and>
          count_list (predecessors_of h' 4) (Addr 0) = 1"
    by blast
  with r u b e show ?thesis by (simp del: run.simps)
qed

text \<open>
  C4, as the claim states it, fails: \<open>link\<close> has no failure path. Block 0 is linked to
  block 1 and then linked again, to block 2. The second link is carried out: the
  transition of block 0 is another jump than before, and block 2 has gained block 0 as a
  predecessor.
\<close>

theorem relink_succeeds_counterexample:
  "map_option
     (\<lambda>h. (getTransition h 0, predecessors_of h 1, predecessors_of h 2,
            map_option (\<lambda>h'. (getTransition h' 0, predecessors_of h' 1, predecessors_of h' 2))
              (link_always h 0 (Addr 2))))
     (run [NewBlock ''B'', NewBlock ''T'', NewBlock ''U'', LinkAlways 0 (Addr 1)] [])
   = Some (Some (Addr 3), [Addr 0], [],
           Some (Some (Addr 4), [Addr 0], [Addr 0]))"
  by code_simp

text \<open>
  C4, amended. For every block that already has a transition, a further link, conditional
  or unconditional, to targets that are blocks does not fail: it replaces the transition
  of the block by the new jump and appends the block to the predecessors of each target
  of the new jump. Every predecessor entry that was there before, those of the first link
  included, stays where it was.
\<close>

theorem relink_replaces_transition:
  assumes "get_Block h (Addr b) = Some bb" and "transition bb \<noteq> NULL"
  shows "(is_Block h (Addr t) \<longrightarrow>
            (\<exists>h'. link_always h b (Addr t) = Some h' \<and>
               getTransition h' b = Some (Addr (length h)) \<and>
               deref h' (Addr (length h)) = Some (JumpAlways (Addr t)) \<and>
               (\<forall>u. predecessors_of h' u =
                      predecessors_of h u @ (if u = t then [Addr b] else [])))) \<and>
         (deref h cond = Some (JumpCond (Addr y) (Addr n) c) \<longrightarrow>
          is_Block h (Addr y) \<longrightarrow> is_Block h (Addr n) \<longrightarrow>
            (\<exists>h'. link_cond h b cond = Some h' \<and>
               getTransition h' b = Some cond \<and>
               (\<forall>u. predecessors_of h' u =
                      predecessors_of h u @ (if u = y then [Addr b] else [])
                        @ (if u = n then [Addr b] else []))))"
proof (intro conjI impI)
  assume t: "is_Block h (Addr t)"
  from link_always_defined [OF assms(1) t] obtain h' where l: "link_always h b (Addr t) = Some h'"
    by blast
  have "\<forall>u. predecessors_of h' u = predecessors_of h u @ (if u = t then [Addr b] else [])"
    by (simp add: link_always_predecessors_of [OF l])
  with l link_always_getTransition [OF l]
  show "\<exists>h'. link_always h b (Addr t) = Some h' \<and>
               getTransition h' b = Some (Addr (length h)) \<and>
               deref h' (Addr (length h)) = Some (JumpAlways (Addr t)) \<and>
               (\<forall>u. predecessors_of h' u =
                      predecessors_of h u @ (if u = t then [Addr b] else []))"
    by blast
next
  assume d: "deref h cond = Some (JumpCond (Addr y) (Addr n) c)"
    and y: "is_Block h (Addr y)" and n: "is_Block h (Addr n)"
  from link_cond_defined [OF assms(1) d y n] obtain h' where l: "link_cond h b cond = Some h'"
    by blast
  have "\<forall>u. predecessors_of h' u = predecessors_of h u @ (if u = y then [Addr b] else [])
                        @ (if u = n then [Addr b] else [])"
    by (simp add: link_cond_predecessors_of [OF l d])
  with l link_cond_getTransition(1) [OF l]
  show "\<exists>h'. link_cond h b cond = Some h' \<and>
               getTransition h' b = Some cond \<and>
               (\<forall>u. predecessors_of h' u =
                      predecessors_of h u @ (if u = y then [Addr b] else [])
                        @ (if u = n then [Addr b] else []))"
    by blast
qed

text \<open>The hypotheses of the amended C4 hold for a block that was linked to \<open>T\<close> and is
  linked again, to \<open>U\<close> or by a conditional jump to \<open>T\<close> and \<open>U\<close>.\<close>

theorem relink_replaces_transition_witness:
  "case run [NewBlock ''B'', NewBlock ''T'', NewBlock ''U'', NewVariable 1,
             NewJumpCond (Addr 1) (Addr 2) (Addr 3), LinkAlways 0 (Addr 1)] [] of
     None \<Rightarrow> False
   | Some h \<Rightarrow>
       map_option transition (get_Block h (Addr 0)) = Some (Addr 5) \<and>
       is_Block h (Addr 1) \<and> is_Block h (Addr 2) \<and>
       deref h (Addr 4) = Some (JumpCond (Addr 1) (Addr 2) (Addr 3)) \<and>
       (\<exists>h'. link_always h 0 (Addr 2) = Some h' \<and> getTransition h' 0 = Some (Addr 6) \<and>
          predecessors_of h' 1 = [Addr 0] \<and> predecessors_of h' 2 = [Addr 0]) \<and>
       (\<exists>h'. link_cond h 0 (Addr 4) = Some h' \<and> getTransition h' 0 = Some (Addr 4) \<and>
          predecessors_of h' 1 = [Addr 0, Addr 0] \<and> predecessors_of h' 2 = [Addr 0])"
proof -
  let ?ops = "[NewBlock ''B'', NewBlock ''T'', NewBlock ''U'', NewVariable 1,
               NewJumpCond (Addr 1) (Addr 2) (Addr 3), LinkAlways 0 (Addr 1)]"
  have "map_option
     (\<lambda>h. (map_option transition (get_Block h (Addr 0)), is_Block h (Addr 1),
            is_Block h (Addr 2), deref h (Addr 4), length h, predecessors_of h 1,
            predecessors_of h 2))
     (run ?ops [])
     = Some (Some (Addr 5), True, True, Some (JumpCond (Addr 1) (Addr 2) (Addr 3)), 6,
             [Addr 0], [])"
    by code_simp
  then obtain h bb where r: "run ?ops [] = Some h" and
    g: "get_Block h (Addr 0) = Some bb" "transition bb = Addr 5" and
    b: "is_Block h (Addr 1)" "is_Block h (Addr 2)" and
    d: "deref h (Addr 4) = Some (JumpCond (Addr 1) (Addr 2) (Addr 3))" and
    v: "length h = 6" "predecessors_of h 1 = [Addr 0]" "predecessors_of h 2 = []"
    by (auto simp del: run.simps)
  from g(2) have nn: "transition bb \<noteq> NULL" by simp
  note T = relink_replaces_transition [OF g(1) nn, of 2 "Addr 4" 1 2 "Addr 3"]
  from T [THEN conjunct1, rule_format, OF b(2)] obtain h1 where
    "link_always h 0 (Addr 2) = Some h1" "getTransition h1 0 = Some (Addr (length h))"
    "\<And>u. predecessors_of h1 u = predecessors_of h u @ (if u = 2 then [Addr 0] else [])"
    by blast
  then have "\<exists>h'. link_always h 0 (Addr 2) = Some h' \<and> getTransition h' 0 = Some (Addr 6) \<and>
          predecessors_of h' 1 = [Addr 0] \<and> predecessors_of h' 2 = [Addr 0]"
    using v by simp
  moreover from T [THEN conjunct2, rule_format, OF d b] obtain h2 where
    "link_cond h 0 (Addr 4) = Some h2" "getTransition h2 0 = Some (Addr 4)"
    "\<And>u. predecessors_of h2 u = predecessors_of h u @ (if u = 1 then [Addr 0] else [])
                        @ (if u = 2 then [Addr 0] else [])"
    by blast
  then have "\<exists>h'. link_cond h 0 (Addr 4) = Some h' \<and> getTransition h' 0 = Some (Addr 4) \<and>
          predecessors_of h' 1 = [Addr 0, Addr 0] \<and> predecessors_of h' 2 = [Addr 0]"
    using v by simp
  ultimately show ?thesis using r g b d by (simp del: run.simps)
qed

end
